theory Spec2Isabelle
  imports Main "HOL-Library.AList"
begin

section \<open>Errors and dictionaries\<close>

text \<open>
  Every exception class that the modelled code raises or catches is one constructor.
  \<open>NotFound\<close> and \<open>APIError\<close> are the container engine's own exceptions
  (\<^verbatim>\<open>docker.errors.NotFound\<close>, \<^verbatim>\<open>docker.errors.APIError\<close>); neither is a subclass of
  \<^verbatim>\<open>ValueError\<close>. The argument is the text that \<^verbatim>\<open>str(e)\<close> prints, except for
  \<open>KeyError\<close>, whose argument is the missing key.
\<close>

datatype error =
    RuntimeError string
  | ValueError string
  | KeyError string
  | IndexError string
  | TypeError string
  | NotFound string
  | APIError string

text \<open>\<^verbatim>\<open>str(e)\<close>: a \<^verbatim>\<open>KeyError\<close> prints the \<^verbatim>\<open>repr\<close> of its key.\<close>

fun str_error :: "error \<Rightarrow> string" where
  "str_error (RuntimeError m) = m"
| "str_error (ValueError m) = m"
| "str_error (KeyError k) = [CHR 0x27] @ k @ [CHR 0x27]"
| "str_error (IndexError m) = m"
| "str_error (TypeError m) = m"
| "str_error (NotFound m) = m"
| "str_error (APIError m) = m"

text \<open>
  A Python \<^verbatim>\<open>dict\<close> from role names to host ports is an association list in insertion
  order; \<^verbatim>\<open>d[k] = v\<close> is \<^const>\<open>AList.update\<close>, \<^verbatim>\<open>d.values()\<close> is \<open>map snd\<close>.
\<close>

type_synonym ports = "(string \<times> int) list"

section \<open>PortManager\<close>

record PortManager =
  allocated_ports :: "int set"
  port_ranges :: "(string \<times> int \<times> int) list"

definition default_port_ranges :: "(string \<times> int \<times> int) list" where
  "default_port_ranges =
     [(''vnc'', (15901, 16000)),
      (''novnc'', (16080, 16179)),
      (''browser_api'', (17788, 17887)),
      (''file_server'', (18080, 18179))]"

definition PortManager_init :: PortManager where
  "PortManager_init = \<lparr>allocated_ports = {}, port_ranges = default_port_ranges\<rparr>"

text \<open>
  The inner loop \<^verbatim>\<open>for port in range(start, end + 1)\<close>: the first port of the range
  that is not allocated, or \<open>None\<close> when the loop runs into its \<^verbatim>\<open>else\<close>.
\<close>

fun scan_range :: "int list \<Rightarrow> int set \<Rightarrow> int option" where
  "scan_range [] A = None"
| "scan_range (port # rest) A = (if port \<notin> A then Some port else scan_range rest A)"

text \<open>
  The outer loop over \<^verbatim>\<open>self.port_ranges.items()\<close>. The set of allocated ports is
  mutated as the loop goes, and the \<^verbatim>\<open>raise\<close> leaves it as it is at that moment.
\<close>

fun allocate_roles ::
  "(string \<times> int \<times> int) list \<Rightarrow> int set \<Rightarrow> ports \<Rightarrow> (error + ports) \<times> int set" where
  "allocate_roles [] A ports = (Inr ports, A)"
| "allocate_roles ((service, (start, end)) # rest) A ports =
     (case scan_range [start..end] A of
        None \<Rightarrow> (Inl (RuntimeError (''No available ports for service '' @ service)), A)
      | Some port \<Rightarrow> allocate_roles rest (insert port A) (AList.update service port ports))"

definition allocate_ports :: "string \<Rightarrow> PortManager \<Rightarrow> (error + ports) \<times> PortManager" where
  "allocate_ports project_id pm =
     (case allocate_roles (port_ranges pm) (allocated_ports pm) [] of
        (r, A) \<Rightarrow> (r, pm\<lparr>allocated_ports := A\<rparr>))"

text \<open>\<^verbatim>\<open>for port in ports.values(): self.allocated_ports.discard(port)\<close>\<close>

definition release_ports :: "ports \<Rightarrow> PortManager \<Rightarrow> PortManager" where
  "release_ports ports pm =
     pm\<lparr>allocated_ports := fold (\<lambda>port A. A - {port}) (map snd ports) (allocated_ports pm)\<rparr>"

section \<open>Strings\<close>

text \<open>\<^verbatim>\<open>s.split(sep)\<close> for a separator of one character: never empty, \<^verbatim>\<open>''.split('x') == ['']\<close>.\<close>

fun split_on :: "char \<Rightarrow> string \<Rightarrow> string list" where
  "split_on sep [] = [[]]"
| "split_on sep (c # cs) =
     (if c = sep then [] # split_on sep cs
      else (case split_on sep cs of
              w # ws \<Rightarrow> (c # w) # ws
            | [] \<Rightarrow> [[c]]))"

text \<open>The decimal text of an integer, as an f-string prints it.\<close>

function str_digits :: "int \<Rightarrow> string" where
  "str_digits n =
     (if n < 10 then [''0123456789'' ! nat n]
      else str_digits (n div 10) @ [''0123456789'' ! nat (n mod 10)])"
  by pat_completeness auto
termination
  by (relation "measure nat") auto

declare str_digits.simps [simp del]

definition str_int :: "int \<Rightarrow> string" where
  "str_int i = (if i < 0 then ''-'' @ str_digits (- i) else str_digits i)"

section \<open>Time stamps\<close>

text \<open>
  A \<^verbatim>\<open>datetime\<close> is naive (no time zone; microseconds on the local clock) or aware
  (with an offset). \<^verbatim>\<open>datetime.now()\<close> is naive. The two library functions
  \<^verbatim>\<open>isoformat\<close> and \<^verbatim>\<open>datetime.fromisoformat\<close> are parameters of the model;
  \<open>fromisoformat env s = None\<close> is the \<^verbatim>\<open>ValueError\<close> of an unparseable string.
\<close>

datatype datetime = Naive int | Aware int int

record pyenv =
  now :: int
  isoformat :: "datetime \<Rightarrow> string"
  fromisoformat :: "string \<Rightarrow> datetime option"

text \<open>\<^verbatim>\<open>datetime.now() + timedelta(hours=h)\<close>\<close>

definition plus_hours :: "int \<Rightarrow> int \<Rightarrow> datetime" where
  "plus_hours t h = Naive (t + h * 3600000000)"

text \<open>
  \<^verbatim>\<open>current_time > auto_stop_at\<close> with a naive left side: comparing with an aware
  value raises \<^verbatim>\<open>TypeError\<close>.
\<close>

fun naive_gt :: "int \<Rightarrow> datetime \<Rightarrow> error + bool" where
  "naive_gt t (Naive u) = Inr (t > u)"
| "naive_gt t (Aware u z) =
     Inl (TypeError ''can't compare offset-naive and offset-aware datetimes'')"

section \<open>The container engine\<close>

text \<open>
  The engine is an external collaborator. It is modelled by the contract the manager
  relies on: containers are found by name, a name is held by at most one container,
  \<^verbatim>\<open>containers.run\<close> refuses a name that is taken, \<^verbatim>\<open>get\<close> and \<^verbatim>\<open>reload\<close> raise
  \<^verbatim>\<open>NotFound\<close> for a container that is gone. Failures of the engine beyond these
  (an unreachable daemon, a host port bound by another process) are not modelled.
  A container handle is the identifier the engine gave it; \<open>network_ports\<close> is
  \<^verbatim>\<open>attrs['NetworkSettings']['Ports']\<close>, each binding reduced to the integer that
  \<^verbatim>\<open>int(binding['HostPort'])\<close> reads.
\<close>

record Container =
  cont_id :: nat
  cont_name :: string
  status :: string
  labels :: "(string \<times> string) list"
  network_ports :: "(string \<times> int list option) list"

record Engine =
  engine_containers :: "Container list"
  engine_volumes :: "string list"
  next_id :: nat

definition containers_get :: "string \<Rightarrow> Engine \<Rightarrow> error + Container" where
  "containers_get nm eng =
     (case find (\<lambda>c. cont_name c = nm) (engine_containers eng) of
        None \<Rightarrow> Inl (NotFound (''No such container: '' @ nm))
      | Some c \<Rightarrow> Inr c)"

definition reload :: "nat \<Rightarrow> Engine \<Rightarrow> error + Container" where
  "reload cid eng =
     (case find (\<lambda>c. cont_id c = cid) (engine_containers eng) of
        None \<Rightarrow> Inl (NotFound (''No such container: '' @ str_int (int cid)))
      | Some c \<Rightarrow> Inr c)"

definition containers_list :: "string \<Rightarrow> Engine \<Rightarrow> Container list" where
  "containers_list label_key eng =
     filter (\<lambda>c. map_of (labels c) label_key \<noteq> None) (engine_containers eng)"

definition name_in_use :: "string \<Rightarrow> Engine \<Rightarrow> bool" where
  "name_in_use nm eng \<longleftrightarrow> find (\<lambda>c. cont_name c = nm) (engine_containers eng) \<noteq> None"

definition containers_run ::
  "string \<Rightarrow> (string \<times> int) list \<Rightarrow> (string \<times> string) list \<Rightarrow> Engine
     \<Rightarrow> (error + Container) \<times> Engine" where
  "containers_run nm port_map lbls eng =
     (if name_in_use nm eng
      then (Inl (APIError (''Conflict. The container name '' @ nm @ '' is already in use'')), eng)
      else
        (let c = \<lparr>cont_id = next_id eng, cont_name = nm, status = ''running'',
                  labels = lbls,
                  network_ports = map (\<lambda>(internal, host). (internal, Some [host])) port_map\<rparr>
         in (Inr c, eng\<lparr>engine_containers := engine_containers eng @ [c],
                         next_id := Suc (next_id eng)\<rparr>)))"

definition set_status :: "nat \<Rightarrow> string \<Rightarrow> Engine \<Rightarrow> Engine" where
  "set_status cid st eng =
     eng\<lparr>engine_containers :=
           map (\<lambda>c. if cont_id c = cid then c\<lparr>status := st\<rparr> else c) (engine_containers eng)\<rparr>"

definition container_stop :: "nat \<Rightarrow> Engine \<Rightarrow> (error + unit) \<times> Engine" where
  "container_stop cid eng =
     (case reload cid eng of
        Inl e \<Rightarrow> (Inl e, eng)
      | Inr c \<Rightarrow> (Inr (), set_status cid ''exited'' eng))"

definition container_remove :: "nat \<Rightarrow> Engine \<Rightarrow> (error + unit) \<times> Engine" where
  "container_remove cid eng =
     (case reload cid eng of
        Inl e \<Rightarrow> (Inl e, eng)
      | Inr c \<Rightarrow>
          (Inr (), eng\<lparr>engine_containers :=
                         filter (\<lambda>c. cont_id c \<noteq> cid) (engine_containers eng)\<rparr>))"

definition volumes_get :: "string \<Rightarrow> Engine \<Rightarrow> error + string" where
  "volumes_get nm eng =
     (if nm \<in> set (engine_volumes eng) then Inr nm
      else Inl (NotFound (''No such volume: '' @ nm)))"

definition volumes_create :: "string \<Rightarrow> Engine \<Rightarrow> Engine" where
  "volumes_create nm eng = eng\<lparr>engine_volumes := engine_volumes eng @ [nm]\<rparr>"

definition volume_remove :: "string \<Rightarrow> Engine \<Rightarrow> Engine" where
  "volume_remove nm eng = eng\<lparr>engine_volumes := filter (\<lambda>v. v \<noteq> nm) (engine_volumes eng)\<rparr>"

text \<open>
  What the engine answers when \<^verbatim>\<open>exec_run\<close> is called: an exit code with the captured
  output, or an exception. The output is kept as text; decoding it is not modelled.
\<close>

datatype exec_reply = Completed int string | Raised error

text \<open>What is written to the log, for the functions whose log a property speaks of.\<close>

datatype log_entry = Debug string | Info string | Warning string | Error string

section \<open>The readiness probe\<close>

text \<open>
  \<^verbatim>\<open>_wait_for_services\<close> reads the clock, runs commands in the container and sleeps.
  The model makes the three explicit. The clock is an integer count of milliseconds.
  The environment \<open>probe\<close> says, for the \<open>k\<close>-th call of \<^verbatim>\<open>exec_run\<close> of one
  invocation, what the call answers and how many milliseconds it takes; any behaviour
  of the container, over time and per command, is one such sequence. A sleep of \<open>n\<close>
  seconds moves the clock by \<open>1000 * n\<close>. Everything the function does is recorded in
  order as its trace: the supervisor checks, the port probes with their service, the
  sleeps in seconds and the log lines. A task cancelled while it sleeps is outside
  the model.
\<close>

datatype wait_event =
    Pgrep exec_reply
  | Probe string int exec_reply
  | Sleep int
  | Logged log_entry

type_synonym probe_env = "nat \<Rightarrow> exec_reply \<times> nat"

text \<open>
  The first loop: \<^verbatim>\<open>pgrep supervisord\<close> every two seconds for up to thirty, left by
  \<^verbatim>\<open>break\<close> on exit code 0. The result is the flag, the clock, the number of exec
  calls so far and the trace.
\<close>

function supervisord_phase ::
  "probe_env \<Rightarrow> int \<Rightarrow> int \<Rightarrow> nat \<Rightarrow> wait_event list \<Rightarrow> bool \<times> int \<times> nat \<times> wait_event list" where
  "supervisord_phase probe start_time t k evs =
     (if t - start_time < 30000 then
        (case probe k of
           (Completed code out, d) \<Rightarrow>
             if code = 0
             then (True, t + int d, Suc k,
                   evs @ [Pgrep (Completed code out), Logged (Info ''Supervisord is running'')])
             else supervisord_phase probe start_time (t + int d + 2000) (Suc k)
                    (evs @ [Pgrep (Completed code out), Sleep 2])
         | (Raised e, d) \<Rightarrow>
             supervisord_phase probe start_time (t + int d + 2000) (Suc k)
               (evs @ [Pgrep (Raised e),
                       Logged (Debug (''Supervisord check failed: '' @ str_error e)),
                       Sleep 2]))
      else (False, t, k, evs))"
  by pat_completeness auto
termination
  by (relation "measure (\<lambda>(probe, start_time, t, k, evs). nat (30000 - (t - start_time)))") auto

declare supervisord_phase.simps [simp del]

definition services_to_check :: "(string \<times> int) list" where
  "services_to_check =
     [(''vnc'', 5901), (''novnc'', 6080), (''file_server'', 8080), (''browser_api'', 7788)]"

text \<open>
  The \<^verbatim>\<open>for\<close> loop of one round: a service that is in \<^verbatim>\<open>services_ready\<close> is passed
  over, any other is probed once. \<open>ready\<close> is the list of keys of \<^verbatim>\<open>services_ready\<close>
  in insertion order; \<open>elapsed\<close> adds up the time the probes took.
\<close>

fun check_services ::
  "probe_env \<Rightarrow> (string \<times> int) list \<Rightarrow> string list \<Rightarrow> bool \<Rightarrow> nat \<Rightarrow> nat \<Rightarrow> wait_event list
     \<Rightarrow> string list \<times> bool \<times> nat \<times> nat \<times> wait_event list" where
  "check_services probe [] ready all_ready elapsed k evs = (ready, all_ready, elapsed, k, evs)"
| "check_services probe ((service, port) # rest) ready all_ready elapsed k evs =
     (if service \<notin> set ready then
        (case probe k of
           (Completed code out, d) \<Rightarrow>
             if code = 0
             then check_services probe rest (ready @ [service]) all_ready (elapsed + d) (Suc k)
                    (evs @ [Probe service port (Completed code out),
                            Logged (Info (service @ '' service is ready on port '' @ str_int port))])
             else check_services probe rest ready False (elapsed + d) (Suc k)
                    (evs @ [Probe service port (Completed code out)])
         | (Raised e, d) \<Rightarrow>
             check_services probe rest ready False (elapsed + d) (Suc k)
               (evs @ [Probe service port (Raised e),
                       Logged (Debug (service @ '' service check failed: '' @ str_error e))]))
      else check_services probe rest ready all_ready elapsed k evs)"

text \<open>The text of a Python list of strings, and the warning of the \<^verbatim>\<open>while\<close>-\<^verbatim>\<open>else\<close>.\<close>

fun repr_items :: "string list \<Rightarrow> string" where
  "repr_items [] = []"
| "repr_items [s] = [CHR 0x27] @ s @ [CHR 0x27]"
| "repr_items (s # r # rest) = [CHR 0x27] @ s @ [CHR 0x27] @ '', '' @ repr_items (r # rest)"

definition repr_list :: "string list \<Rightarrow> string" where
  "repr_list xs = ''['' @ repr_items xs @ '']''"

definition missing_services :: "string list \<Rightarrow> string list" where
  "missing_services ready = filter (\<lambda>s. s \<notin> set ready) (map fst services_to_check)"

definition timeout_warning :: "string list \<Rightarrow> log_entry" where
  "timeout_warning ready =
     Warning (''Timeout waiting for services. Ready: '' @ repr_list ready
              @ '', Missing: '' @ repr_list (missing_services ready))"

text \<open>
  The second loop: rounds three seconds apart until every service is ready
  (\<^verbatim>\<open>break\<close>) or the time since the start reaches \<open>timeout\<close> seconds (the \<^verbatim>\<open>else\<close> of
  the \<^verbatim>\<open>while\<close>, which only logs).
\<close>

function service_phase ::
  "probe_env \<Rightarrow> int \<Rightarrow> int \<Rightarrow> string list \<Rightarrow> int \<Rightarrow> nat \<Rightarrow> wait_event list
     \<Rightarrow> int \<times> nat \<times> wait_event list" where
  "service_phase probe timeout start_time ready t k evs =
     (if t - start_time < timeout * 1000 then
        (case check_services probe services_to_check ready True 0 k evs of
           (ready1, all_ready, elapsed, k1, evs1) \<Rightarrow>
             if all_ready
             then (t + int elapsed, k1, evs1 @ [Logged (Info ''All services are ready'')])
             else service_phase probe timeout start_time ready1 (t + int elapsed + 3000) k1
                    (evs1 @ [Sleep 3]))
      else (t, k, evs @ [Logged (timeout_warning ready)]))"
  by pat_completeness auto
termination
  by (relation "measure (\<lambda>(probe, timeout, start_time, ready, t, k, evs).
                  nat (timeout * 1000 - (t - start_time)))") auto

declare service_phase.simps [simp del]

text \<open>
  \<^verbatim>\<open>_wait_for_services(container, timeout)\<close> entered at clock \<open>start_time\<close>; \<open>cid\<close> is
  the container's identifier, of which the first log line prints twelve characters.
  The function has no \<^verbatim>\<open>return\<close> and no \<^verbatim>\<open>raise\<close>: its result is its trace.
\<close>

definition wait_for_services :: "probe_env \<Rightarrow> string \<Rightarrow> int \<Rightarrow> int \<Rightarrow> wait_event list" where
  "wait_for_services probe cid timeout start_time =
     (case supervisord_phase probe start_time start_time 0
             [Logged (Info (''Waiting for services to start in container '' @ take 12 cid @ ''...''))] of
        (supervisord_ready, t1, k1, evs1) \<Rightarrow>
          (let evs2 = (if \<not> supervisord_ready
                       then evs1 @ [Logged (Warning ''Supervisord may not be running properly'')]
                       else evs1)
           in case service_phase probe timeout start_time [] t1 k1 evs2 of
                (t2, k2, evs3) \<Rightarrow>
                  evs3 @ [Sleep 5, Logged (Info ''Service startup process completed'')]))"

text \<open>
  Two properties of a trace. \<open>no_reprobe\<close>: after a probe of a service has answered
  with exit code 0, no later event of the trace is a probe of that service.
  \<open>ready_as_probed\<close>: the services in the list are those that such a probe was seen for.
\<close>

definition no_reprobe :: "wait_event list \<Rightarrow> bool" where
  "no_reprobe evs \<longleftrightarrow>
     (\<forall>i j s port out port' r.
        i < j \<and> j < length evs \<and> evs ! i = Probe s port (Completed 0 out)
          \<longrightarrow> evs ! j \<noteq> Probe s port' r)"

definition ready_as_probed :: "string list \<Rightarrow> wait_event list \<Rightarrow> bool" where
  "ready_as_probed ready evs \<longleftrightarrow>
     (\<forall>s. s \<in> set ready \<longleftrightarrow> (\<exists>port out. Probe s port (Completed 0 out) \<in> set evs))"

section \<open>LocalSandboxManager\<close>

record SandboxConfig =
  project_id :: string
  vnc_password :: string
  resolution :: string
  cpu_limit :: int
  memory_limit :: string
  disk_limit :: string
  auto_stop_hours :: int

text \<open>\<^verbatim>\<open>SandboxConfig(project_id=project_id)\<close>: every other field at its default.\<close>

definition SandboxConfig_default :: "string \<Rightarrow> SandboxConfig" where
  "SandboxConfig_default pid =
     \<lparr>project_id = pid, vnc_password = ''vncpassword'', resolution = ''1024x768x24'',
      cpu_limit = 2, memory_limit = ''4g'', disk_limit = ''10g'', auto_stop_hours = 24\<rparr>"

text \<open>One entry of \<^verbatim>\<open>self.containers\<close>; \<open>container\<close> is the engine handle.\<close>

record container_info =
  container :: nat
  ports :: ports
  config :: SandboxConfig
  created_at :: datetime
  volume_name :: string

record LocalSandboxManager =
  docker :: Engine
  containers :: "string \<rightharpoonup> container_info"
  port_manager :: PortManager
  base_image :: string
  network_name :: string

text \<open>
  \<^verbatim>\<open>__init__\<close> on an engine that answers the ping. The bridge network that it ensures
  is not part of the model.
\<close>

definition LocalSandboxManager_init :: "Engine \<Rightarrow> LocalSandboxManager" where
  "LocalSandboxManager_init eng =
     \<lparr>docker = eng, containers = Map.empty, port_manager = PortManager_init,
      base_image = ''local-suna-sandbox:latest'', network_name = ''suna-sandbox-network''\<rparr>"

text \<open>\<^verbatim>\<open>d[k]\<close> on a dictionary of ports: \<^verbatim>\<open>KeyError\<close> when the key is missing.\<close>

definition port_of :: "ports \<Rightarrow> string \<Rightarrow> error + int" where
  "port_of ps k = (case map_of ps k of None \<Rightarrow> Inl (KeyError k) | Some p \<Rightarrow> Inr p)"

text \<open>
  The \<^verbatim>\<open>'ports'\<close> entry of the container configuration: four look-ups, in the order
  of the dictionary literal; the first missing role raises.
\<close>

definition port_publishing :: "ports \<Rightarrow> error + (string \<times> int) list" where
  "port_publishing ps =
     (case port_of ps ''vnc'' of Inl e \<Rightarrow> Inl e | Inr p1 \<Rightarrow>
      case port_of ps ''novnc'' of Inl e \<Rightarrow> Inl e | Inr p2 \<Rightarrow>
      case port_of ps ''browser_api'' of Inl e \<Rightarrow> Inl e | Inr p3 \<Rightarrow>
      case port_of ps ''file_server'' of Inl e \<Rightarrow> Inl e | Inr p4 \<Rightarrow>
        Inr [(''5901/tcp'', p1), (''6080/tcp'', p2), (''7788/tcp'', p3), (''8080/tcp'', p4)])"

text \<open>
  The body of the \<^verbatim>\<open>try\<close> block of \<^verbatim>\<open>create_sandbox\<close>: ensure the volume, build the
  container configuration (the port look-ups, then
  \<^verbatim>\<open>config.resolution.split('x')[1]\<close>, which raises \<^verbatim>\<open>IndexError\<close> for a resolution
  without an \<^verbatim>\<open>x\<close>), run the container, wait for its services, store the cache entry.
  \<^verbatim>\<open>_wait_for_services\<close> (modelled below as \<open>wait_for_services\<close>) only probes and
  sleeps: it returns normally and changes no field of this state, so it leaves no
  trace here. Of the container configuration the engine model keeps the name, the
  published ports and the labels.
\<close>

definition create_body ::
  "pyenv \<Rightarrow> SandboxConfig \<Rightarrow> ports \<Rightarrow> LocalSandboxManager
     \<Rightarrow> (error + nat) \<times> LocalSandboxManager" where
  "create_body env cfg ps m =
     (let pid = project_id cfg;
          container_name = ''suna-sandbox-'' @ pid;
          vol = ''suna-workspace-'' @ pid;
          eng1 = (case volumes_get vol (docker m) of
                    Inl e \<Rightarrow> volumes_create vol (docker m)
                  | Inr v \<Rightarrow> docker m);
          m1 = m\<lparr>docker := eng1\<rparr>
      in case port_publishing ps of
           Inl e \<Rightarrow> (Inl e, m1)
         | Inr port_map \<Rightarrow>
             if length (split_on CHR ''x'' (resolution cfg)) < 2
             then (Inl (IndexError ''list index out of range''), m1)
             else
               (let lbls = [(''suna.project_id'', pid),
                            (''suna.created_at'', isoformat env (Naive (now env))),
                            (''suna.auto_stop_at'',
                               isoformat env (plus_hours (now env) (auto_stop_hours cfg)))]
                in case containers_run container_name port_map lbls eng1 of
                     (Inl e, eng2) \<Rightarrow> (Inl e, m\<lparr>docker := eng2\<rparr>)
                   | (Inr c, eng2) \<Rightarrow>
                       (Inr (cont_id c),
                        m\<lparr>docker := eng2,
                          containers := (containers m)(pid \<mapsto>
                            \<lparr>container = cont_id c, ports = ps, config = cfg,
                             created_at = Naive (now env), volume_name = vol\<rparr>)\<rparr>)))"

text \<open>
  \<^verbatim>\<open>create_sandbox\<close>: the duplicate check looks at the cache only; the ports are
  allocated outside the \<^verbatim>\<open>try\<close>, so an allocation that raises is not followed by a
  release; an exception of the body releases the ports and is raised again.
\<close>

definition create_sandbox ::
  "pyenv \<Rightarrow> SandboxConfig \<Rightarrow> LocalSandboxManager \<Rightarrow> (error + nat) \<times> LocalSandboxManager" where
  "create_sandbox env cfg m =
     (let pid = project_id cfg in
      if containers m pid \<noteq> None
      then (Inl (ValueError (''Sandbox for project '' @ pid @ '' already exists'')), m)
      else
        (case allocate_ports pid (port_manager m) of
           (Inl e, pm1) \<Rightarrow> (Inl e, m\<lparr>port_manager := pm1\<rparr>)
         | (Inr ps, pm1) \<Rightarrow>
             (case create_body env cfg ps (m\<lparr>port_manager := pm1\<rparr>) of
                (Inl e, m2) \<Rightarrow> (Inl e, m2\<lparr>port_manager := release_ports ps (port_manager m2)\<rparr>)
              | (Inr cid, m2) \<Rightarrow> (Inr cid, m2))))"

subsection \<open>get_sandbox\<close>

record sandbox_info =
  info_id :: nat
  info_name :: string
  info_status :: string
  info_ports :: "(string \<times> int \<times> int) list"
  info_created_at :: string
  info_config :: SandboxConfig
  info_urls :: "(string \<times> string) list"

text \<open>\<^verbatim>\<open>_format_ports\<close>: each role with its internal port (8000 for an unknown role).\<close>

definition internal_port :: "string \<Rightarrow> int" where
  "internal_port service =
     (case map_of [(''vnc'', 5901), (''novnc'', 6080), (''browser_api'', 7788),
                   (''file_server'', 8080)] service of
        None \<Rightarrow> 8000
      | Some p \<Rightarrow> p)"

definition format_ports :: "ports \<Rightarrow> (string \<times> int \<times> int) list" where
  "format_ports ps = map (\<lambda>(service, port). (service, (internal_port service, port))) ps"

text \<open>\<^verbatim>\<open>_generate_service_urls\<close>: \<^verbatim>\<open>ports['vnc']\<close> and its kin raise \<^verbatim>\<open>KeyError\<close>.\<close>

definition generate_service_urls :: "ports \<Rightarrow> error + (string \<times> string) list" where
  "generate_service_urls ps =
     (case port_of ps ''vnc'' of Inl e \<Rightarrow> Inl e | Inr p1 \<Rightarrow>
      case port_of ps ''novnc'' of Inl e \<Rightarrow> Inl e | Inr p2 \<Rightarrow>
      case port_of ps ''browser_api'' of Inl e \<Rightarrow> Inl e | Inr p3 \<Rightarrow>
      case port_of ps ''file_server'' of Inl e \<Rightarrow> Inl e | Inr p4 \<Rightarrow>
        Inr [(''vnc'', ''vnc://localhost:'' @ str_int p1),
             (''novnc'', ''http://localhost:'' @ str_int p2),
             (''browser_api'', ''http://localhost:'' @ str_int p3),
             (''file_server'', ''http://localhost:'' @ str_int p4)])"

text \<open>
  \<^verbatim>\<open>_extract_ports_from_container\<close>: a binding list that is \<^verbatim>\<open>None\<close> or empty is
  skipped, and so is an internal port outside the fixed mapping.
\<close>

definition port_mapping :: "(string \<times> string) list" where
  "port_mapping =
     [(''5901/tcp'', ''vnc''), (''6080/tcp'', ''novnc''),
      (''7788/tcp'', ''browser_api''), (''8080/tcp'', ''file_server'')]"

fun extract_loop :: "(string \<times> int list option) list \<Rightarrow> ports \<Rightarrow> ports" where
  "extract_loop [] acc = acc"
| "extract_loop ((internal, bindings) # rest) acc =
     (case bindings of
        Some (external_port # others) \<Rightarrow>
          (case map_of port_mapping internal of
             Some service_name \<Rightarrow> extract_loop rest (AList.update service_name external_port acc)
           | None \<Rightarrow> extract_loop rest acc)
      | _ \<Rightarrow> extract_loop rest acc)"

definition extract_ports_from_container :: "Container \<Rightarrow> ports" where
  "extract_ports_from_container c = extract_loop (network_ports c) []"

text \<open>
  The branch of \<^verbatim>\<open>get_sandbox\<close> for a project that is in the cache: reload the
  handle and compose the view. \<^verbatim>\<open>reload\<close> and the URL look-ups can raise.
\<close>

definition sandbox_view :: "pyenv \<Rightarrow> container_info \<Rightarrow> Engine \<Rightarrow> error + sandbox_info" where
  "sandbox_view env ci eng =
     (case reload (container ci) eng of
        Inl e \<Rightarrow> Inl e
      | Inr c \<Rightarrow>
          (case generate_service_urls (ports ci) of
             Inl e \<Rightarrow> Inl e
           | Inr urls \<Rightarrow>
               Inr \<lparr>info_id = cont_id c, info_name = cont_name c, info_status = status c,
                    info_ports = format_ports (ports ci),
                    info_created_at = isoformat env (created_at ci),
                    info_config = config ci, info_urls = urls\<rparr>))"

text \<open>
  The handler of the \<^verbatim>\<open>try\<close> block of \<^verbatim>\<open>get_sandbox\<close>: the engine's \<^verbatim>\<open>NotFound\<close> is
  caught and the manager's own not-found \<^verbatim>\<open>ValueError\<close> is raised after the block;
  every other result passes.
\<close>

fun catch_not_found :: "string \<Rightarrow> error + 'a \<Rightarrow> error + 'a" where
  "catch_not_found pid (Inl (NotFound msg)) =
     Inl (ValueError (''Sandbox for project '' @ pid @ '' not found''))"
| "catch_not_found pid r = r"

text \<open>
  \<^verbatim>\<open>get_sandbox\<close>. On a cache miss the container is looked up by name. With a
  matching label the cache entry is rebuilt (the port manager is not touched) and the
  function calls itself, still inside the \<^verbatim>\<open>try\<close>; the call then takes the branch
  of the cached project. \<^verbatim>\<open>datetime.fromisoformat\<close> of the creation label raises
  \<^verbatim>\<open>ValueError\<close> for an unparseable label, before the entry is stored.
\<close>

definition get_sandbox ::
  "pyenv \<Rightarrow> string \<Rightarrow> LocalSandboxManager \<Rightarrow> (error + sandbox_info) \<times> LocalSandboxManager" where
  "get_sandbox env pid m =
     (case containers m pid of
        Some ci \<Rightarrow> (sandbox_view env ci (docker m), m)
      | None \<Rightarrow>
          (case containers_get (''suna-sandbox-'' @ pid) (docker m) of
             Inl e \<Rightarrow> (catch_not_found pid (Inl e), m)
           | Inr c \<Rightarrow>
               if map_of (labels c) ''suna.project_id'' = Some pid
               then
                 (let ps = extract_ports_from_container c;
                      created = (case map_of (labels c) ''suna.created_at'' of
                                   None \<Rightarrow> isoformat env (Naive (now env))
                                 | Some s \<Rightarrow> s)
                  in case fromisoformat env created of
                       None \<Rightarrow> (Inl (ValueError (''Invalid isoformat string: '' @ created)), m)
                     | Some d \<Rightarrow>
                         (let ci = \<lparr>container = cont_id c, ports = ps,
                                    config = SandboxConfig_default pid, created_at = d,
                                    volume_name = ''suna-workspace-'' @ pid\<rparr>;
                              m1 = m\<lparr>containers := (containers m)(pid \<mapsto> ci)\<rparr>
                          in (catch_not_found pid (sandbox_view env ci (docker m1)), m1)))
               else (Inl (ValueError (''Sandbox for project '' @ pid @ '' not found'')), m)))"

subsection \<open>delete_sandbox and cleanup_expired_sandboxes\<close>

text \<open>
  \<^verbatim>\<open>delete_sandbox\<close> looks at the cache only. An exception of \<^verbatim>\<open>container.stop()\<close>
  is swallowed; one of \<^verbatim>\<open>container.remove(force=True)\<close> leaves the function before the
  ports are released.
\<close>

definition delete_sandbox ::
  "string \<Rightarrow> LocalSandboxManager \<Rightarrow> (error + unit) \<times> LocalSandboxManager" where
  "delete_sandbox pid m =
     (case containers m pid of
        None \<Rightarrow> (Inl (ValueError (''Sandbox for project '' @ pid @ '' not found'')), m)
      | Some ci \<Rightarrow>
          (let eng1 = snd (container_stop (container ci) (docker m)) in
           case container_remove (container ci) eng1 of
             (Inl e, eng2) \<Rightarrow> (Inl e, m\<lparr>docker := eng2\<rparr>)
           | (Inr u, eng2) \<Rightarrow>
               (let eng3 = (case volumes_get (volume_name ci) eng2 of
                              Inl e \<Rightarrow> eng2
                            | Inr v \<Rightarrow> volume_remove v eng2)
                in (Inr (),
                    m\<lparr>docker := eng3,
                      port_manager := release_ports (ports ci) (port_manager m),
                      containers := (containers m)(pid := None)\<rparr>))))"

text \<open>
  The first loop of \<^verbatim>\<open>cleanup_expired_sandboxes\<close>: the projects to delete, and the
  warnings logged on the way. Only the \<^verbatim>\<open>ValueError\<close> of the parser is caught; the
  \<^verbatim>\<open>TypeError\<close> of comparing with an aware time stamp ends the sweep.
\<close>

fun collect_expired ::
  "pyenv \<Rightarrow> Container list \<Rightarrow> string list \<Rightarrow> log_entry list
     \<Rightarrow> (error + string list) \<times> log_entry list" where
  "collect_expired env [] expired_projects lg = (Inr expired_projects, lg)"
| "collect_expired env (c # rest) expired_projects lg =
     (case map_of (labels c) ''suna.auto_stop_at'' of
        None \<Rightarrow> collect_expired env rest expired_projects lg
      | Some auto_stop_at_str \<Rightarrow>
          if auto_stop_at_str = [] then collect_expired env rest expired_projects lg
          else
            (case fromisoformat env auto_stop_at_str of
               None \<Rightarrow>
                 collect_expired env rest expired_projects
                   (lg @ [Warning (''Invalid auto_stop_at format: '' @ auto_stop_at_str)])
             | Some auto_stop_at \<Rightarrow>
                 (case naive_gt (now env) auto_stop_at of
                    Inl e \<Rightarrow> (Inl e, lg)
                  | Inr False \<Rightarrow> collect_expired env rest expired_projects lg
                  | Inr True \<Rightarrow>
                      (case map_of (labels c) ''suna.project_id'' of
                         None \<Rightarrow> collect_expired env rest expired_projects lg
                       | Some pid \<Rightarrow>
                           if pid = [] then collect_expired env rest expired_projects lg
                           else collect_expired env rest (expired_projects @ [pid]) lg))))"

text \<open>The second loop: every failure of \<^verbatim>\<open>delete_sandbox\<close> is logged and the loop goes on.\<close>

fun delete_expired ::
  "string list \<Rightarrow> LocalSandboxManager \<Rightarrow> log_entry list \<Rightarrow> LocalSandboxManager \<times> log_entry list" where
  "delete_expired [] m lg = (m, lg)"
| "delete_expired (pid # rest) m lg =
     (case delete_sandbox pid m of
        (Inl e, m1) \<Rightarrow>
          delete_expired rest m1
            (lg @ [Error (''Failed to cleanup sandbox '' @ pid @ '': '' @ str_error e)])
      | (Inr u, m1) \<Rightarrow>
          delete_expired rest m1
            (lg @ [Info (''Cleaned up expired sandbox for project '' @ pid)]))"

definition cleanup_expired_sandboxes ::
  "pyenv \<Rightarrow> LocalSandboxManager \<Rightarrow> (error + unit) \<times> LocalSandboxManager \<times> log_entry list" where
  "cleanup_expired_sandboxes env m =
     (case collect_expired env (containers_list ''suna.auto_stop_at'' (docker m)) [] [] of
        (Inl e, lg) \<Rightarrow> (Inl e, m, lg)
      | (Inr expired_projects, lg) \<Rightarrow>
          (case delete_expired expired_projects m lg of
             (m1, lg1) \<Rightarrow> (Inr (), m1, lg1)))"

subsection \<open>Sequences of create and delete\<close>

text \<open>
  A run of the manager: each \<open>Create\<close> carries the clock and library behaviour of its
  moment. It starts from \<^const>\<open>LocalSandboxManager_init\<close> on any engine.
\<close>

datatype manager_op = Create pyenv SandboxConfig | Delete string

fun apply_op :: "manager_op \<Rightarrow> LocalSandboxManager \<Rightarrow> LocalSandboxManager" where
  "apply_op (Create env cfg) m = snd (create_sandbox env cfg m)"
| "apply_op (Delete pid) m = snd (delete_sandbox pid m)"

definition run_ops :: "manager_op list \<Rightarrow> LocalSandboxManager \<Rightarrow> LocalSandboxManager" where
  "run_ops ops m = fold apply_op ops m"

text \<open>The allocator and the cache agree: what the proof of port uniqueness carries along.\<close>

definition ports_inv :: "LocalSandboxManager \<Rightarrow> bool" where
  "ports_inv m \<longleftrightarrow>
     port_ranges (port_manager m) = default_port_ranges \<and>
     (\<forall>pid ci svc p. containers m pid = Some ci \<and> (svc, p) \<in> set (ports ci) \<longrightarrow>
        p \<in> allocated_ports (port_manager m) \<and>
        (\<exists>lo hi. (svc, lo, hi) \<in> set default_port_ranges \<and> lo \<le> p \<and> p \<le> hi)) \<and>
     (\<forall>pid ci svc p pid' ci' svc'.
        containers m pid = Some ci \<and> (svc, p) \<in> set (ports ci) \<and>
        containers m pid' = Some ci' \<and> (svc', p) \<in> set (ports ci') \<longrightarrow>
        pid' = pid \<and> svc' = svc)"

section \<open>Path cleaning\<close>

text \<open>\<^verbatim>\<open>s.startswith(p)\<close>\<close>

definition startswith :: "string \<Rightarrow> string \<Rightarrow> bool" where
  "startswith s p \<longleftrightarrow> take (length p) s = p"

text \<open>\<^verbatim>\<open>'/'.join(comps)\<close>\<close>

fun join_slash :: "string list \<Rightarrow> string" where
  "join_slash [] = []"
| "join_slash [w] = w"
| "join_slash (w # v # ws) = w @ ''/'' @ join_slash (v # ws)"

text \<open>
  \<^verbatim>\<open>os.path.normpath\<close> of the POSIX flavour, which is library code: the loop over the
  components of \<^verbatim>\<open>path.split('/')\<close>. Empty components and \<^verbatim>\<open>.\<close> are dropped; \<^verbatim>\<open>..\<close>
  is kept at the front of a relative path and after another \<^verbatim>\<open>..\<close>, pops the last
  component otherwise, and is dropped at the root.
\<close>

fun norm_comps :: "nat \<Rightarrow> string list \<Rightarrow> string list \<Rightarrow> string list" where
  "norm_comps initial_slashes [] new_comps = new_comps"
| "norm_comps initial_slashes (part # rest) new_comps =
     (if part = [] \<or> part = ''.'' then norm_comps initial_slashes rest new_comps
      else if part \<noteq> ''..'' \<or> (initial_slashes = 0 \<and> new_comps = [])
              \<or> (new_comps \<noteq> [] \<and> last new_comps = ''..'')
      then norm_comps initial_slashes rest (new_comps @ [part])
      else if new_comps \<noteq> [] then norm_comps initial_slashes rest (butlast new_comps)
      else norm_comps initial_slashes rest new_comps)"

text \<open>
  One or two leading slashes are kept as they are, three or more count as one; an
  empty result is \<^verbatim>\<open>.\<close>.
\<close>

definition normpath :: "string \<Rightarrow> string" where
  "normpath path =
     (if path = [] then ''.''
      else
        (let initial_slashes =
               (if startswith path ''/''
                then (if startswith path ''//'' \<and> \<not> startswith path ''///'' then 2 else 1)
                else 0);
             new_comps = norm_comps initial_slashes (split_on CHR ''/'' path) [];
             joined = replicate initial_slashes CHR ''/'' @ join_slash new_comps
         in if joined = [] then ''.'' else joined))"

text \<open>\<^verbatim>\<open>re.sub(r'[<>:"|?*]', '', path)\<close>\<close>

definition strip_dangerous :: "string \<Rightarrow> string" where
  "strip_dangerous path =
     filter (\<lambda>c. c \<notin> set [CHR ''<'', CHR ''>'', CHR '':'', CHR 0x22, CHR ''|'', CHR ''?'', CHR ''*''])
       path"

text \<open>\<^verbatim>\<open>re.sub(r'/+', '/', path)\<close>\<close>

fun collapse_slashes :: "string \<Rightarrow> string" where
  "collapse_slashes [] = []"
| "collapse_slashes [c] = [c]"
| "collapse_slashes (c # d # cs) =
     (if c = CHR ''/'' \<and> d = CHR ''/'' then collapse_slashes (d # cs)
      else c # collapse_slashes (d # cs))"

text \<open>The reparenting step that both versions of \<^verbatim>\<open>clean_path\<close> share.\<close>

definition reparent :: "string \<Rightarrow> string" where
  "reparent path =
     (if \<not> startswith path ''/workspace''
      then (if startswith path ''/'' then ''/workspace'' @ path else ''/workspace/'' @ path)
      else path)"

text \<open>\<^verbatim>\<open>LocalSandboxToolsBase.clean_path\<close>\<close>

definition clean_path :: "string \<Rightarrow> string" where
  "clean_path path =
     (if path = [] then ''/workspace''
      else collapse_slashes (reparent (normpath (strip_dangerous path))))"

text \<open>
  \<^verbatim>\<open>clean_path\<close> of the HTTP layer: it decodes the path with the library function
  \<^verbatim>\<open>urllib.parse.unquote\<close>, a parameter here, and strips and collapses nothing.
\<close>

definition api_clean_path :: "(string \<Rightarrow> string) \<Rightarrow> string \<Rightarrow> string" where
  "api_clean_path unquote path =
     (if path = [] then ''/workspace''
      else reparent (normpath (unquote path)))"

text \<open>\<^verbatim>\<open>'..' in path\<close>\<close>

fun has_dotdot :: "string \<Rightarrow> bool" where
  "has_dotdot (c # d # cs) = ((c = CHR ''.'' \<and> d = CHR ''.'') \<or> has_dotdot (d # cs))"
| "has_dotdot cs = False"

text \<open>\<^verbatim>\<open>LocalSandboxToolsBase.validate_path\<close>\<close>

definition validate_path :: "string \<Rightarrow> bool" where
  "validate_path path =
     (if path = [] then False
      else if has_dotdot path \<or> startswith path ''~'' then False
      else if \<not> startswith (normpath path) ''/workspace'' then False
      else True)"

text \<open>The components of a path, and whether \<^verbatim>\<open>..\<close> is one of them.\<close>

definition dotdot_token :: "string \<Rightarrow> bool" where
  "dotdot_token path \<longleftrightarrow> ''..'' \<in> set (split_on CHR ''/'' path)"

section \<open>LocalApiAdapter\<close>

record LocalWorkspace =
  ws_id :: string
  ws_name :: string
  ws_project_id :: string
  ws_status :: string
  ws_created_at :: string
  ws_urls :: "(string \<times> string) list"
  ws_ports :: "(string \<times> int \<times> int) list"
  ws_sandbox_info :: sandbox_info

text \<open>\<^verbatim>\<open>LocalWorkspace(project_id, sandbox_info)\<close>; every key it reads is in the view.\<close>

definition LocalWorkspace_init :: "string \<Rightarrow> sandbox_info \<Rightarrow> LocalWorkspace" where
  "LocalWorkspace_init pid info =
     \<lparr>ws_id = pid, ws_name = ''workspace-'' @ pid, ws_project_id = pid,
      ws_status = info_status info, ws_created_at = info_created_at info,
      ws_urls = info_urls info, ws_ports = info_ports info, ws_sandbox_info = info\<rparr>"

record LocalApiAdapter =
  sandbox_manager :: LocalSandboxManager
  workspaces_cache :: "string \<rightharpoonup> LocalWorkspace"

text \<open>
  \<^verbatim>\<open>get_workspace\<close>. The result is a sum so that an exception that leaves the function
  would be \<open>Inl\<close>; the two handlers catch \<^verbatim>\<open>ValueError\<close> and then every other
  \<^verbatim>\<open>Exception\<close>, and both return \<^verbatim>\<open>None\<close>, the second after logging.
\<close>

definition get_workspace ::
  "pyenv \<Rightarrow> string \<Rightarrow> LocalApiAdapter
     \<Rightarrow> (error + LocalWorkspace option) \<times> LocalApiAdapter \<times> log_entry list" where
  "get_workspace env pid a =
     (case get_sandbox env pid (sandbox_manager a) of
        (Inr info, m1) \<Rightarrow>
          (let workspace = LocalWorkspace_init pid info
           in (Inr (Some workspace),
               a\<lparr>sandbox_manager := m1,
                 workspaces_cache := (workspaces_cache a)(pid \<mapsto> workspace)\<rparr>,
               []))
      | (Inl (ValueError msg), m1) \<Rightarrow> (Inr None, a\<lparr>sandbox_manager := m1\<rparr>, [])
      | (Inl e, m1) \<Rightarrow>
          (Inr None, a\<lparr>sandbox_manager := m1\<rparr>,
           [Error (''Failed to get workspace for project '' @ pid @ '': '' @ str_error e)]))"

subsection \<open>execute_command\<close>

record exec_result =
  exit_code :: int
  stdout :: string
  stderr :: string
  success :: bool

text \<open>One call of the engine's exec operation: the handle, the command, the directory.\<close>

type_synonym exec_call = "nat \<times> string \<times> string"

text \<open>The dictionary that every \<^verbatim>\<open>except Exception\<close> branch returns.\<close>

definition failure_result :: "string \<Rightarrow> exec_result" where
  "failure_result msg = \<lparr>exit_code = - 1, stdout = [], stderr = msg, success = False\<rparr>"

text \<open>
  \<^verbatim>\<open>LocalApiAdapter.execute_command\<close>, with the list of exec calls it issued. Every
  exception inside the \<^verbatim>\<open>try\<close> (of \<^verbatim>\<open>get_sandbox\<close>, of the cache look-up, of
  \<^verbatim>\<open>reload\<close>, of \<^verbatim>\<open>exec_run\<close>) ends in the failure dictionary with \<^verbatim>\<open>str(e)\<close>.
\<close>

definition execute_command ::
  "pyenv \<Rightarrow> exec_reply \<Rightarrow> string \<Rightarrow> string \<Rightarrow> string \<Rightarrow> LocalApiAdapter
     \<Rightarrow> exec_result \<times> exec_call list \<times> LocalApiAdapter" where
  "execute_command env reply pid command workdir a =
     (case get_sandbox env pid (sandbox_manager a) of
        (Inl e, m1) \<Rightarrow> (failure_result (str_error e), [], a\<lparr>sandbox_manager := m1\<rparr>)
      | (Inr info, m1) \<Rightarrow>
          (let a1 = a\<lparr>sandbox_manager := m1\<rparr> in
           case containers m1 pid of
             None \<Rightarrow> (failure_result (str_error (KeyError pid)), [], a1)
           | Some ci \<Rightarrow>
               (case reload (container ci) (docker m1) of
                  Inl e \<Rightarrow> (failure_result (str_error e), [], a1)
                | Inr c \<Rightarrow>
                    if status c \<noteq> ''running''
                    then (\<lparr>exit_code = - 1, stdout = [],
                           stderr = ''Container is not running (status: '' @ status c @ '')'',
                           success = False\<rparr>, [], a1)
                    else
                      (case reply of
                         Raised e \<Rightarrow>
                           (failure_result (str_error e), [(cont_id c, command, workdir)], a1)
                       | Completed code output \<Rightarrow>
                           (\<lparr>exit_code = code,
                             stdout = (if output \<noteq> [] then output else []),
                             stderr = [],
                             success = (code = 0)\<rparr>,
                            [(cont_id c, command, workdir)], a1)))))"

text \<open>
  \<^verbatim>\<open>LocalSandbox.execute_command\<close> and \<^verbatim>\<open>LocalSandboxToolsBase.execute_command\<close>. Both
  first make sure that a sandbox is there (\<^verbatim>\<open>get_or_start_sandbox\<close>), which is not
  modelled: its outcome is a parameter, the exception it raised or the adapter as it
  is when the command is passed on.
\<close>

definition sandbox_execute_command ::
  "pyenv \<Rightarrow> exec_reply \<Rightarrow> error + LocalApiAdapter \<Rightarrow> string \<Rightarrow> string \<Rightarrow> string
     \<Rightarrow> exec_result \<times> exec_call list" where
  "sandbox_execute_command env reply acquired pid command workdir =
     (case acquired of
        Inl e \<Rightarrow> (failure_result (str_error e), [])
      | Inr a \<Rightarrow>
          (case execute_command env reply pid command workdir a of
             (r, calls, a1) \<Rightarrow> (r, calls)))"

definition tool_execute_command ::
  "pyenv \<Rightarrow> exec_reply \<Rightarrow> error option \<Rightarrow> error + LocalApiAdapter \<Rightarrow> string \<Rightarrow> string \<Rightarrow> string
     \<Rightarrow> exec_result \<times> exec_call list" where
  "tool_execute_command env reply tool_acquired acquired pid command workdir =
     (case tool_acquired of
        Some e \<Rightarrow> (failure_result (str_error e), [])
      | None \<Rightarrow> sandbox_execute_command env reply acquired pid command (clean_path workdir))"

section \<open>Concrete states used to run the model\<close>

text \<open>
  A moment in June 2025 and a library that formats and parses the handful of time
  stamps the examples use.
\<close>

definition example_isoformat :: "datetime \<Rightarrow> string" where
  "example_isoformat d =
     (if d = Naive 1750000000000000 then ''2025-06-15T15:06:40''
      else if d = Naive 1750086400000000 then ''2025-06-16T15:06:40''
      else if d = Naive 1704067200000000 then ''2024-01-01T00:00:00''
      else if d = Naive 1704153600000000 then ''2024-01-02T00:00:00''
      else ''1970-01-01T00:00:00'')"

definition example_fromisoformat :: "string \<Rightarrow> datetime option" where
  "example_fromisoformat =
     map_of [(''2025-06-15T15:06:40'', Naive 1750000000000000),
             (''2025-06-16T15:06:40'', Naive 1750086400000000),
             (''2024-01-01T00:00:00'', Naive 1704067200000000),
             (''2024-01-02T00:00:00'', Naive 1704153600000000),
             (''1970-01-01T00:00:00'', Naive 0)]"

definition example_env :: pyenv where
  "example_env =
     \<lparr>now = 1750000000000000, isoformat = example_isoformat,
      fromisoformat = example_fromisoformat\<rparr>"

definition empty_engine :: Engine where
  "empty_engine = \<lparr>engine_containers = [], engine_volumes = [], next_id = 0\<rparr>"

text \<open>
  \<open>n\<close> allocations in a row on one allocator. The state in which every port of every
  range is taken except the first \<open>vnc\<close> port is what a fresh allocator holds after
  one hundred allocations and \<^verbatim>\<open>release_ports({'vnc': 15901})\<close>.
\<close>

fun allocate_many :: "nat \<Rightarrow> PortManager \<Rightarrow> PortManager" where
  "allocate_many 0 pm = pm"
| "allocate_many (Suc n) pm = snd (allocate_ports ''p'' (allocate_many n pm))"

text \<open>The ports taken by \<open>n\<close> allocations on a fresh allocator.\<close>

definition filled :: "nat \<Rightarrow> int set" where
  "filled n = {15901..<15901 + int n} \<union> {16080..<16080 + int n}
            \<union> {17788..<17788 + int n} \<union> {18080..<18080 + int n}"

definition vnc_gap :: PortManager where
  "vnc_gap =
     \<lparr>allocated_ports = {15902..16000} \<union> {16080..16179} \<union> {17788..17887} \<union> {18080..18179},
      port_ranges = default_port_ranges\<rparr>"

text \<open>Two sandboxes created one after the other on an empty engine, and their cache entries.\<close>

definition two_sandboxes :: LocalSandboxManager where
  "two_sandboxes =
     run_ops [Create example_env (SandboxConfig_default ''p1''),
              Create example_env (SandboxConfig_default ''p2'')]
       (LocalSandboxManager_init empty_engine)"

definition p1_entry :: container_info where
  "p1_entry =
     \<lparr>container = 0,
      ports = [(''vnc'', 15901), (''novnc'', 16080), (''browser_api'', 17788),
               (''file_server'', 18080)],
      config = SandboxConfig_default ''p1'',
      created_at = Naive 1750000000000000,
      volume_name = ''suna-workspace-p1''\<rparr>"

definition p2_entry :: container_info where
  "p2_entry =
     \<lparr>container = 1,
      ports = [(''vnc'', 15902), (''novnc'', 16081), (''browser_api'', 17789),
               (''file_server'', 18081)],
      config = SandboxConfig_default ''p2'',
      created_at = Naive 1750000000000000,
      volume_name = ''suna-workspace-p2''\<rparr>"

text \<open>
  A fresh manager on an engine where somebody else runs a container under the name of
  project \<open>p1\<close>: no label, no volume, nothing in the cache.
\<close>

definition foreign_engine :: Engine where
  "foreign_engine =
     \<lparr>engine_containers =
        [\<lparr>cont_id = 0, cont_name = ''suna-sandbox-p1'', status = ''running'',
          labels = [], network_ports = []\<rparr>],
      engine_volumes = [], next_id = 1\<rparr>"

definition foreign_manager :: LocalSandboxManager where
  "foreign_manager = LocalSandboxManager_init foreign_engine"

text \<open>
  A manager restarted while the sandbox of project \<open>p1\<close> runs: the engine has the
  container with its labels and published ports (and one port that is not a sandbox
  service), the new manager's cache and allocator are empty.
\<close>

definition running_p1 :: Container where
  "running_p1 =
     \<lparr>cont_id = 0, cont_name = ''suna-sandbox-p1'', status = ''running'',
      labels = [(''suna.project_id'', ''p1''),
                (''suna.created_at'', ''2024-01-01T00:00:00''),
                (''suna.auto_stop_at'', ''2024-01-02T00:00:00'')],
      network_ports = [(''5901/tcp'', Some [15901]), (''6080/tcp'', Some [16080]),
                       (''7788/tcp'', Some [17788]), (''8080/tcp'', Some [18080]),
                       (''9222/tcp'', None)]\<rparr>"

definition restarted_manager :: LocalSandboxManager where
  "restarted_manager =
     LocalSandboxManager_init
       \<lparr>engine_containers = [running_p1], engine_volumes = [''suna-workspace-p1''],
        next_id = 1\<rparr>"

text \<open>
  The same restart with the sandbox stopped: the engine reports no port bindings for a
  container that is not running.
\<close>

definition stopped_p1 :: Container where
  "stopped_p1 =
     \<lparr>cont_id = 0, cont_name = ''suna-sandbox-p1'', status = ''exited'',
      labels = [(''suna.project_id'', ''p1''),
                (''suna.created_at'', ''2024-01-01T00:00:00''),
                (''suna.auto_stop_at'', ''2024-01-02T00:00:00'')],
      network_ports = []\<rparr>"

definition stopped_adapter :: LocalApiAdapter where
  "stopped_adapter =
     \<lparr>sandbox_manager =
        LocalSandboxManager_init
          \<lparr>engine_containers = [stopped_p1], engine_volumes = [''suna-workspace-p1''],
           next_id = 1\<rparr>,
      workspaces_cache = Map.empty\<rparr>"

text \<open>An adapter whose manager created the sandbox of \<open>p1\<close> itself; then the container stops.\<close>

definition created_manager :: LocalSandboxManager where
  "created_manager =
     run_ops [Create example_env (SandboxConfig_default ''p1'')]
       (LocalSandboxManager_init empty_engine)"

definition created_then_stopped_adapter :: LocalApiAdapter where
  "created_then_stopped_adapter =
     \<lparr>sandbox_manager =
        created_manager\<lparr>docker := set_status 0 ''exited'' (docker created_manager)\<rparr>,
      workspaces_cache = Map.empty\<rparr>"

definition created_adapter :: LocalApiAdapter where
  "created_adapter = \<lparr>sandbox_manager = created_manager, workspaces_cache = Map.empty\<rparr>"

text \<open>
  Two days later: the sandbox of \<open>p1\<close> has expired. And an engine with a container
  whose expiry label is not a time stamp.
\<close>

definition later_env :: pyenv where
  "later_env = example_env\<lparr>now := 1750172800000000\<rparr>"

definition mislabelled_manager :: LocalSandboxManager where
  "mislabelled_manager =
     LocalSandboxManager_init
       \<lparr>engine_containers =
          [\<lparr>cont_id = 0, cont_name = ''suna-sandbox-p9'', status = ''running'',
            labels = [(''suna.project_id'', ''p9''), (''suna.auto_stop_at'', ''tomorrow'')],
            network_ports = []\<rparr>],
        engine_volumes = [], next_id = 1\<rparr>"

text \<open>
  A container in which the supervisor and three services answer at once and
  \<open>novnc\<close> never does; every exec call takes a tenth of a second.
\<close>

definition novnc_down :: probe_env where
  "novnc_down k =
     (if k = 0 \<or> k = 1 \<or> k = 3 \<or> k = 4 then (Completed 0 [], 100) else (Completed 1 [], 100))"

text \<open>The trace of the readiness probe on that container with a time-out of five seconds, up to the settling sleep.\<close>

definition novnc_trace_prefix :: "wait_event list" where
  "novnc_trace_prefix =
    [Logged (Info ''Waiting for services to start in container 0123456789ab...''),
     Pgrep (Completed 0 []), Logged (Info ''Supervisord is running''),
     Probe ''vnc'' 5901 (Completed 0 []),
     Logged (Info ''vnc service is ready on port 5901''),
     Probe ''novnc'' 6080 (Completed 1 []),
     Probe ''file_server'' 8080 (Completed 0 []),
     Logged (Info ''file_server service is ready on port 8080''),
     Probe ''browser_api'' 7788 (Completed 0 []),
     Logged (Info ''browser_api service is ready on port 7788''), Sleep 3,
     Probe ''novnc'' 6080 (Completed 1 []), Sleep 3,
     Logged (timeout_warning [''vnc'', ''file_server'', ''browser_api''])]"

chapter \<open>Properties\<close>

section \<open>Facts about the port allocator\<close>

lemma scan_range_Some:
  "scan_range ps A = Some p \<Longrightarrow> p \<in> set ps \<and> p \<notin> A"
  by (induction ps) (auto split: if_splits)

lemma scan_range_None:
  "scan_range ps A = None \<longleftrightarrow> set ps \<subseteq> A"
  by (induction ps) auto

lemma fold_discard:
  "fold (\<lambda>port A. A - {port}) ps A = A - set ps"
  by (induction ps arbitrary: A) auto

lemma release_ports_allocated:
  "allocated_ports (release_ports ps pm) = allocated_ports pm - snd ` set ps"
  by (simp add: release_ports_def fold_discard)

lemma release_ports_ranges [simp]:
  "port_ranges (release_ports ps pm) = port_ranges pm"
  by (simp add: release_ports_def)

lemma allocate_ports_ranges [simp]:
  "port_ranges (snd (allocate_ports pid pm)) = port_ranges pm"
  by (simp add: allocate_ports_def split: prod.splits)


lemma update_fresh: "k \<notin> fst ` set al \<Longrightarrow> AList.update k v al = al @ [(k, v)]"
  by (induction al) auto

lemma allocate_roles_Inr:
  "allocate_roles rs A acc = (Inr ps, A') \<Longrightarrow> distinct (map fst rs) \<Longrightarrow>
   fst ` set acc \<inter> fst ` set rs = {} \<Longrightarrow>
   \<exists>new. ps = acc @ new \<and> map fst new = map fst rs \<and> A' = A \<union> snd ` set new \<and>
         distinct (map snd new) \<and> snd ` set new \<inter> A = {} \<and>
         (\<forall>(svc, p) \<in> set new. \<exists>lo hi. (svc, lo, hi) \<in> set rs \<and> lo \<le> p \<and> p \<le> hi)"
proof (induction rs arbitrary: A acc)
  case Nil
  then show ?case by simp
next
  case (Cons r rs)
  obtain svc lo hi where r: "r = (svc, lo, hi)" by (cases r) auto
  from Cons.prems(1) r obtain p where
    scan: "scan_range [lo..hi] A = Some p" and
    rec: "allocate_roles rs (insert p A) (AList.update svc p acc) = (Inr ps, A')"
    by (auto split: option.splits)
  from scan have p: "p \<notin> A" "lo \<le> p" "p \<le> hi"
    using scan_range_Some[OF scan] by auto
  from Cons.prems(3) r have fresh: "svc \<notin> fst ` set acc" by auto
  then have upd: "AList.update svc p acc = acc @ [(svc, p)]" by (rule update_fresh)
  have disj: "fst ` set (AList.update svc p acc) \<inter> fst ` set rs = {}"
    using Cons.prems(2,3) r by (auto simp: upd)
  from Cons.prems(2) have d: "distinct (map fst rs)" by simp
  from Cons.IH[OF rec d disj] obtain new where new:
    "ps = AList.update svc p acc @ new" "map fst new = map fst rs"
    "A' = insert p A \<union> snd ` set new" "distinct (map snd new)"
    "snd ` set new \<inter> insert p A = {}"
    "\<forall>(svc, p) \<in> set new. \<exists>lo hi. (svc, lo, hi) \<in> set rs \<and> lo \<le> p \<and> p \<le> hi"
    by blast
  let ?new = "(svc, p) # new"
  have "ps = acc @ ?new" using new(1) upd by simp
  moreover have "map fst ?new = map fst (r # rs)" using new(2) r by simp
  moreover have "A' = A \<union> snd ` set ?new" using new(3) by auto
  moreover have "distinct (map snd ?new)" using new(4,5) by auto
  moreover have "snd ` set ?new \<inter> A = {}" using new(5) p(1) by auto
  moreover have "\<forall>(svc, p) \<in> set ?new. \<exists>lo hi. (svc, lo, hi) \<in> set (r # rs) \<and> lo \<le> p \<and> p \<le> hi"
    using new(6) p(2,3) r by fastforce
  ultimately show ?case by blast
qed

lemma allocate_roles_Inl_cases:
  "allocate_roles rs A acc = (Inl e, A') \<Longrightarrow> A \<subseteq> A' \<and> (\<exists>svc. e = RuntimeError (''No available ports for service '' @ svc))"
proof (induction rs arbitrary: A acc)
  case Nil then show ?case by simp
next
  case (Cons r rs)
  obtain svc lo hi where r: "r = (svc, lo, hi)" by (cases r) auto
  show ?case
  proof (cases "scan_range [lo..hi] A")
    case None
    with Cons.prems r show ?thesis by auto
  next
    case (Some p)
    with Cons.prems r have "allocate_roles rs (insert p A) (AList.update svc p acc) = (Inl e, A')" by simp
    from Cons.IH[OF this] show ?thesis by auto
  qed
qed


lemma allocate_ports_Inr:
  assumes "allocate_ports pid pm = (Inr ps, pm')" "distinct (map fst (port_ranges pm))"
  shows "pm' = pm\<lparr>allocated_ports := allocated_ports pm \<union> snd ` set ps\<rparr>"
    and "map fst ps = map fst (port_ranges pm)"
    and "distinct (map snd ps)"
    and "snd ` set ps \<inter> allocated_ports pm = {}"
    and "\<forall>(svc, p) \<in> set ps. \<exists>lo hi. (svc, lo, hi) \<in> set (port_ranges pm) \<and> lo \<le> p \<and> p \<le> hi"
proof -
  from assms(1) obtain A' where
    r: "allocate_roles (port_ranges pm) (allocated_ports pm) [] = (Inr ps, A')"
    and pm': "pm' = pm\<lparr>allocated_ports := A'\<rparr>"
    by (auto simp: allocate_ports_def split: prod.splits)
  from allocate_roles_Inr[OF r assms(2)] obtain new where new:
    "ps = [] @ new" "map fst new = map fst (port_ranges pm)"
    "A' = allocated_ports pm \<union> snd ` set new" "distinct (map snd new)"
    "snd ` set new \<inter> allocated_ports pm = {}"
    "\<forall>(svc, p) \<in> set new. \<exists>lo hi. (svc, lo, hi) \<in> set (port_ranges pm) \<and> lo \<le> p \<and> p \<le> hi"
    by auto
  from new pm' show "pm' = pm\<lparr>allocated_ports := allocated_ports pm \<union> snd ` set ps\<rparr>"
    and "map fst ps = map fst (port_ranges pm)"
    and "distinct (map snd ps)"
    and "snd ` set ps \<inter> allocated_ports pm = {}"
    and "\<forall>(svc, p) \<in> set ps. \<exists>lo hi. (svc, lo, hi) \<in> set (port_ranges pm) \<and> lo \<le> p \<and> p \<le> hi"
    by simp_all
qed

lemma allocate_ports_Inl:
  assumes "allocate_ports pid pm = (Inl e, pm')"
  shows "port_ranges pm' = port_ranges pm" and "allocated_ports pm \<subseteq> allocated_ports pm'"
    and "\<exists>svc. e = RuntimeError (''No available ports for service '' @ svc)"
proof -
  from assms obtain A' where
    r: "allocate_roles (port_ranges pm) (allocated_ports pm) [] = (Inl e, A')"
    and pm': "pm' = pm\<lparr>allocated_ports := A'\<rparr>"
    by (auto simp: allocate_ports_def split: prod.splits)
  from allocate_roles_Inl_cases[OF r] pm'
  show "port_ranges pm' = port_ranges pm" and "allocated_ports pm \<subseteq> allocated_ports pm'"
    and "\<exists>svc. e = RuntimeError (''No available ports for service '' @ svc)"
    by auto
qed

lemma release_after_allocate:
  assumes "allocate_ports pid pm = (Inr ps, pm')" "distinct (map fst (port_ranges pm))"
  shows "release_ports ps pm' = pm"
proof -
  from allocate_ports_Inr(1,4)[OF assms]
  have pm': "pm' = pm\<lparr>allocated_ports := allocated_ports pm \<union> snd ` set ps\<rparr>"
    and disj: "snd ` set ps \<inter> allocated_ports pm = {}" by auto
  have "(allocated_ports pm \<union> snd ` set ps) - snd ` set ps = allocated_ports pm"
    using disj by auto
  then show ?thesis
    by (simp add: pm' release_ports_def fold_discard)
qed

text \<open>What the body of create does to the fields.\<close>

lemma create_body_port_manager:
  "port_manager (snd (create_body env cfg ps m)) = port_manager m"
  by (auto simp: create_body_def Let_def split: sum.splits prod.splits)

lemma create_body_Inl_containers:
  "create_body env cfg ps m = (Inl e, m') \<Longrightarrow> containers m' = containers m"
  by (auto simp: create_body_def Let_def split: sum.splits prod.splits if_splits)

lemma create_body_Inr_containers:
  "create_body env cfg ps m = (Inr cid, m') \<Longrightarrow>
   \<exists>ci. containers m' = (containers m)(project_id cfg \<mapsto> ci) \<and> ports ci = ps \<and> container ci = cid"
  by (auto simp: create_body_def Let_def split: sum.splits prod.splits if_splits)


section \<open>Allocation that fails part of the way\<close>

text \<open>
  The allocator hands out the lowest free port of a range, so \<open>n\<close> allocations on a
  fresh allocator take the first \<open>n\<close> ports of each range, and the state
  \<open>vnc_gap\<close> is reached through the allocator's two operations.
\<close>

lemma scan_range_upto:
  "lo \<le> x \<Longrightarrow> x \<le> hi \<Longrightarrow> x \<notin> A \<Longrightarrow> \<forall>p. lo \<le> p \<and> p < x \<longrightarrow> p \<in> A \<Longrightarrow>
   scan_range [lo..hi] A = Some x"
proof (induction "nat (x - lo)" arbitrary: lo)
  case 0
  then have "lo = x" by simp
  with 0 show ?case by (simp add: upto_rec1)
next
  case (Suc n)
  then have lt: "lo < x" by simp
  with Suc.prems have inA: "lo \<in> A" by simp
  have "scan_range [lo + 1..hi] A = Some x"
  proof (rule Suc.hyps(1))
    show "n = nat (x - (lo + 1))" using Suc.hyps(2) by simp
    show "lo + 1 \<le> x" using lt by simp
    show "x \<le> hi" by (rule Suc.prems(2))
    show "x \<notin> A" by (rule Suc.prems(3))
    show "\<forall>p. lo + 1 \<le> p \<and> p < x \<longrightarrow> p \<in> A" using Suc.prems(4) by simp
  qed
  moreover have "[lo..hi] = lo # [lo + 1..hi]"
    using lt Suc.prems(2) by (simp add: upto_rec1)
  ultimately show ?case using inA by simp
qed

lemma allocate_many_filled:
  "n \<le> 100 \<Longrightarrow>
   allocate_many n PortManager_init = \<lparr>allocated_ports = filled n, port_ranges = default_port_ranges\<rparr>"
proof (induction n)
  case 0
  show ?case by (simp add: PortManager_init_def filled_def)
next
  case (Suc n)
  then have n: "n < 100" and IH: "allocate_many n PortManager_init =
      \<lparr>allocated_ports = filled n, port_ranges = default_port_ranges\<rparr>" by simp_all
  let ?a = "15901 + int n" and ?b = "16080 + int n" and ?c = "17788 + int n" and ?d = "18080 + int n"
  have s1: "scan_range [15901..16000] (filled n) = Some ?a"
    using n by (intro scan_range_upto) (auto simp: filled_def)
  have s2: "scan_range [16080..16179] (insert ?a (filled n)) = Some ?b"
    using n by (intro scan_range_upto) (auto simp: filled_def)
  have s3: "scan_range [17788..17887] (insert ?b (insert ?a (filled n))) = Some ?c"
    using n by (intro scan_range_upto) (auto simp: filled_def)
  have s4: "scan_range [18080..18179] (insert ?c (insert ?b (insert ?a (filled n)))) = Some ?d"
    using n by (intro scan_range_upto) (auto simp: filled_def)
  have "insert ?d (insert ?c (insert ?b (insert ?a (filled n)))) = filled (Suc n)"
    by (auto simp: filled_def)
  with s1 s2 s3 s4 IH show ?case
    by (simp add: allocate_ports_def default_port_ranges_def)
qed

lemma vnc_gap_reached:
  "release_ports [(''vnc'', 15901)] (allocate_many 100 PortManager_init) = vnc_gap"
proof -
  have "filled 100 - {15901} = {15902..16000} \<union> {16080..16179} \<union> {17788..17887} \<union> {18080..18179}"
    by (auto simp: filled_def)
  then show ?thesis
    by (simp add: allocate_many_filled release_ports_def vnc_gap_def)
qed


text \<open>
  Claim C1 (allocation is atomic: all four roles get a port, or the call fails and the
  set of allocated ports is as before). At the state \<open>vnc_gap\<close> the call fails for the
  role \<open>novnc\<close>, and the port 15901 that it took for \<open>vnc\<close> stays allocated: the set is
  not the one from before the call.
\<close>

theorem allocate_ports_keeps_partial_allocation:
  "fst (allocate_ports ''p1'' vnc_gap) = Inl (RuntimeError ''No available ports for service novnc'')
   \<and> 15901 \<notin> allocated_ports vnc_gap
   \<and> 15901 \<in> allocated_ports (snd (allocate_ports ''p1'' vnc_gap))
   \<and> allocated_ports (snd (allocate_ports ''p1'' vnc_gap)) \<noteq> allocated_ports vnc_gap"
proof -
  have run: "allocate_ports ''p1'' vnc_gap =
      (Inl (RuntimeError ''No available ports for service novnc''),
       vnc_gap\<lparr>allocated_ports := insert 15901 (allocated_ports vnc_gap)\<rparr>)"
    by (simp add: allocate_ports_def vnc_gap_def default_port_ranges_def)
  have free: "15901 \<notin> allocated_ports vnc_gap"
    by (simp add: vnc_gap_def)
  from run free show ?thesis by auto
qed

section \<open>The allocator and the cache stay in step\<close>

lemma distinct_snd_same_key:
  "distinct (map snd xs) \<Longrightarrow> (a, p) \<in> set xs \<Longrightarrow> (b, p) \<in> set xs \<Longrightarrow> a = b"
  by (induction xs) (auto simp: image_iff)

lemma ports_inv_init: "ports_inv (LocalSandboxManager_init eng)"
  by (simp add: ports_inv_def LocalSandboxManager_init_def PortManager_init_def)

lemma ports_inv_cong:
  "containers m' = containers m \<Longrightarrow> port_manager m' = port_manager m \<Longrightarrow>
   ports_inv m' = ports_inv m"
  by (simp add: ports_inv_def)

lemma ports_inv_mono:
  assumes "ports_inv m" "containers m' = containers m"
    "port_ranges (port_manager m') = port_ranges (port_manager m)"
    "allocated_ports (port_manager m) \<subseteq> allocated_ports (port_manager m')"
  shows "ports_inv m'"
proof -
  from assms(1) have r: "port_ranges (port_manager m) = default_port_ranges"
    and a: "\<And>pid ci svc p. containers m pid = Some ci \<Longrightarrow> (svc, p) \<in> set (ports ci) \<Longrightarrow>
        p \<in> allocated_ports (port_manager m) \<and>
        (\<exists>lo hi. (svc, lo, hi) \<in> set default_port_ranges \<and> lo \<le> p \<and> p \<le> hi)"
    and u: "\<And>pid ci svc p pid' ci' svc'. containers m pid = Some ci \<Longrightarrow>
        (svc, p) \<in> set (ports ci) \<Longrightarrow> containers m pid' = Some ci' \<Longrightarrow>
        (svc', p) \<in> set (ports ci') \<Longrightarrow> pid' = pid \<and> svc' = svc"
    unfolding ports_inv_def by blast+
  show ?thesis
    unfolding ports_inv_def assms(2) assms(3)
  proof (intro conjI allI impI)
    show "port_ranges (port_manager m) = default_port_ranges" by (rule r)
  next
    fix pid ci svc p
    assume "containers m pid = Some ci \<and> (svc, p) \<in> set (ports ci)"
    with a[of pid ci svc p] assms(4)
    show "p \<in> allocated_ports (port_manager m')" by blast
  next
    fix pid ci svc p
    assume "containers m pid = Some ci \<and> (svc, p) \<in> set (ports ci)"
    with a[of pid ci svc p]
    show "\<exists>lo hi. (svc, lo, hi) \<in> set default_port_ranges \<and> lo \<le> p \<and> p \<le> hi" by blast
  next
    fix pid ci svc p pid' ci' svc'
    assume h: "containers m pid = Some ci \<and> (svc, p) \<in> set (ports ci) \<and>
        containers m pid' = Some ci' \<and> (svc', p) \<in> set (ports ci')"
    with u[of pid ci svc p pid' ci' svc'] show "pid' = pid" by blast
    from h u[of pid ci svc p pid' ci' svc'] show "svc' = svc" by blast
  qed
qed

lemma distinct_default_roles: "distinct (map fst default_port_ranges)"
  by (simp add: default_port_ranges_def)

lemma create_sandbox_ports_inv:
  assumes inv: "ports_inv m"
  shows "ports_inv (snd (create_sandbox env cfg m))"
proof (cases "containers m (project_id cfg) \<noteq> None")
  case True
  then show ?thesis using inv by (simp add: create_sandbox_def)
next
  case False
  then have fresh: "containers m (project_id cfg) = None" by simp
  from inv have ranges: "port_ranges (port_manager m) = default_port_ranges"
    by (simp add: ports_inv_def)
  then have dist: "distinct (map fst (port_ranges (port_manager m)))"
    by (simp add: distinct_default_roles)
  obtain r pm1 where alloc: "allocate_ports (project_id cfg) (port_manager m) = (r, pm1)"
    by (cases "allocate_ports (project_id cfg) (port_manager m)")
  show ?thesis
  proof (cases r)
    case (Inl e)
    with alloc fresh have res: "snd (create_sandbox env cfg m) = m\<lparr>port_manager := pm1\<rparr>"
      by (simp add: create_sandbox_def)
    from allocate_ports_Inl(1,2)[OF alloc[unfolded Inl]]
    show ?thesis unfolding res using inv by (intro ports_inv_mono[OF inv]) simp_all
  next
    case (Inr ps)
    note al = alloc[unfolded Inr]
    obtain r2 m2 where body: "create_body env cfg ps (m\<lparr>port_manager := pm1\<rparr>) = (r2, m2)"
      by (cases "create_body env cfg ps (m\<lparr>port_manager := pm1\<rparr>)")
    have pm2: "port_manager m2 = pm1"
      using create_body_port_manager[of env cfg ps "m\<lparr>port_manager := pm1\<rparr>"] body by simp
    show ?thesis
    proof (cases r2)
      case (Inl e)
      with al body fresh have res:
        "snd (create_sandbox env cfg m) = m2\<lparr>port_manager := release_ports ps (port_manager m2)\<rparr>"
        by (simp add: create_sandbox_def)
      have c: "containers m2 = containers m"
        using create_body_Inl_containers[OF body[unfolded Inl]] by simp
      have rel: "release_ports ps pm1 = port_manager m" by (rule release_after_allocate[OF al dist])
      have "ports_inv (m2\<lparr>port_manager := release_ports ps (port_manager m2)\<rparr>) = ports_inv m"
        by (rule ports_inv_cong) (simp_all add: c pm2 rel)
      with inv show ?thesis unfolding res by simp
    next
      case (Inr cid)
      with al body fresh have res: "snd (create_sandbox env cfg m) = m2"
        by (simp add: create_sandbox_def)
      from create_body_Inr_containers[OF body[unfolded Inr]] obtain ci where
        c: "containers m2 = (containers m)(project_id cfg \<mapsto> ci)" and pci: "ports ci = ps"
        by auto
      note A = allocate_ports_Inr[OF al dist]
      have alloc2: "allocated_ports (port_manager m2) = allocated_ports (port_manager m) \<union> snd ` set ps"
        and ranges2: "port_ranges (port_manager m2) = default_port_ranges"
        using A(1) pm2 ranges by simp_all
      have old: "\<And>pid ci' svc p. containers m pid = Some ci' \<Longrightarrow> (svc, p) \<in> set (ports ci') \<Longrightarrow>
          p \<in> allocated_ports (port_manager m) \<and>
          (\<exists>lo hi. (svc, lo, hi) \<in> set default_port_ranges \<and> lo \<le> p \<and> p \<le> hi)"
        using inv unfolding ports_inv_def by blast
      have uniq: "\<And>pid ci1 svc p pid' ci' svc'. containers m pid = Some ci1 \<Longrightarrow>
          (svc, p) \<in> set (ports ci1) \<Longrightarrow> containers m pid' = Some ci' \<Longrightarrow>
          (svc', p) \<in> set (ports ci') \<Longrightarrow> pid' = pid \<and> svc' = svc"
        using inv unfolding ports_inv_def by blast
      have new: "\<And>svc p. (svc, p) \<in> set ps \<Longrightarrow> p \<notin> allocated_ports (port_manager m) \<and>
          (\<exists>lo hi. (svc, lo, hi) \<in> set default_port_ranges \<and> lo \<le> p \<and> p \<le> hi)"
        using A(4,5) ranges by (auto simp: image_iff) 
      have entry: "\<And>pid ci'. containers m2 pid = Some ci' \<Longrightarrow>
          (pid = project_id cfg \<and> ci' = ci) \<or> (pid \<noteq> project_id cfg \<and> containers m pid = Some ci')"
        using c by (auto split: if_splits)
      have part1: "\<forall>pid ci' svc p. containers m2 pid = Some ci' \<and> (svc, p) \<in> set (ports ci') \<longrightarrow>
          p \<in> allocated_ports (port_manager m2) \<and>
          (\<exists>lo hi. (svc, lo, hi) \<in> set default_port_ranges \<and> lo \<le> p \<and> p \<le> hi)"
      proof (intro allI impI)
        fix pid ci' svc p
        assume h: "containers m2 pid = Some ci' \<and> (svc, p) \<in> set (ports ci')"
        from entry[of pid ci'] h consider
          "pid = project_id cfg" "ci' = ci" | "containers m pid = Some ci'" by blast
        then show "p \<in> allocated_ports (port_manager m2) \<and>
          (\<exists>lo hi. (svc, lo, hi) \<in> set default_port_ranges \<and> lo \<le> p \<and> p \<le> hi)"
        proof cases
          case 1
          with h pci have "(svc, p) \<in> set ps" by simp
          with new[OF this] show ?thesis by (auto simp: alloc2 image_iff intro: bexI[of _ "(svc, p)"])
        next
          case 2
          with h old[of pid ci' svc p] show ?thesis by (simp add: alloc2)
        qed
      qed
      have part2: "\<forall>pid ci1 svc p pid' ci' svc'.
          containers m2 pid = Some ci1 \<and> (svc, p) \<in> set (ports ci1) \<and>
          containers m2 pid' = Some ci' \<and> (svc', p) \<in> set (ports ci') \<longrightarrow>
          pid' = pid \<and> svc' = svc"
      proof (intro allI impI)
        fix pid ci1 svc p pid' ci' svc'
        assume h: "containers m2 pid = Some ci1 \<and> (svc, p) \<in> set (ports ci1) \<and>
          containers m2 pid' = Some ci' \<and> (svc', p) \<in> set (ports ci')"
        from entry[of pid ci1] h have e1:
          "(pid = project_id cfg \<and> ci1 = ci) \<or> (pid \<noteq> project_id cfg \<and> containers m pid = Some ci1)" by blast
        from entry[of pid' ci'] h have e2:
          "(pid' = project_id cfg \<and> ci' = ci) \<or> (pid' \<noteq> project_id cfg \<and> containers m pid' = Some ci')" by blast
        show "pid' = pid \<and> svc' = svc"
        proof (cases "pid = project_id cfg")
          case True
          with e1 h pci have in1: "(svc, p) \<in> set ps" by auto
          show ?thesis
          proof (cases "pid' = project_id cfg")
            case True
            with e2 h pci have "(svc', p) \<in> set ps" by auto
            with in1 A(3) have "svc' = svc" by (metis distinct_snd_same_key)
            with True \<open>pid = project_id cfg\<close> show ?thesis by simp
          next
            case False
            with e2 have "containers m pid' = Some ci'" by simp
            with h old[of pid' ci' svc' p] new[OF in1] show ?thesis by blast
          qed
        next
          case False
          with e1 have o1: "containers m pid = Some ci1" by simp
          show ?thesis
          proof (cases "pid' = project_id cfg")
            case True
            with e2 h pci have "(svc', p) \<in> set ps" by auto
            with new[OF this] h old[OF o1, of svc p] show ?thesis by blast
          next
            case False
            with e2 have "containers m pid' = Some ci'" by simp
            with o1 h uniq[of pid ci1 svc p pid' ci' svc'] show ?thesis by blast
          qed
        qed
      qed
      show ?thesis unfolding res ports_inv_def using ranges2 part1 part2 by blast
    qed
  qed
qed


lemma delete_sandbox_ports_inv:
  assumes inv: "ports_inv m"
  shows "ports_inv (snd (delete_sandbox pid m))"
proof (cases "containers m pid")
  case None
  then show ?thesis using inv by (simp add: delete_sandbox_def)
next
  case (Some ci)
  obtain r eng2 where rm:
    "container_remove (container ci) (snd (container_stop (container ci) (docker m))) = (r, eng2)"
    by (cases "container_remove (container ci) (snd (container_stop (container ci) (docker m)))")
  show ?thesis
  proof (cases r)
    case (Inl e)
    with Some rm have res: "snd (delete_sandbox pid m) = m\<lparr>docker := eng2\<rparr>"
      by (simp add: delete_sandbox_def)
    have "ports_inv (m\<lparr>docker := eng2\<rparr>) = ports_inv m"
      by (rule ports_inv_cong) simp_all
    with inv show ?thesis unfolding res by simp
  next
    case (Inr u)
    define m' where "m' = snd (delete_sandbox pid m)"
    from Some rm Inr have c': "containers m' = (containers m)(pid := None)"
      and pm': "port_manager m' = release_ports (ports ci) (port_manager m)"
      by (simp_all add: m'_def delete_sandbox_def Let_def)
    from inv have r: "port_ranges (port_manager m) = default_port_ranges"
      and a: "\<And>pid ci svc p. containers m pid = Some ci \<Longrightarrow> (svc, p) \<in> set (ports ci) \<Longrightarrow>
        p \<in> allocated_ports (port_manager m) \<and>
        (\<exists>lo hi. (svc, lo, hi) \<in> set default_port_ranges \<and> lo \<le> p \<and> p \<le> hi)"
      and u: "\<And>pid ci svc p pid' ci' svc'. containers m pid = Some ci \<Longrightarrow>
        (svc, p) \<in> set (ports ci) \<Longrightarrow> containers m pid' = Some ci' \<Longrightarrow>
        (svc', p) \<in> set (ports ci') \<Longrightarrow> pid' = pid \<and> svc' = svc"
      unfolding ports_inv_def by blast+
    have al: "allocated_ports (port_manager m') =
        allocated_ports (port_manager m) - snd ` set (ports ci)"
      by (simp add: pm' release_ports_allocated)
    have entry: "\<And>q cq. containers m' q = Some cq \<Longrightarrow> q \<noteq> pid \<and> containers m q = Some cq"
      by (auto simp: c' split: if_splits)
    have "ports_inv m'"
      unfolding ports_inv_def
    proof (intro conjI allI impI)
      show "port_ranges (port_manager m') = default_port_ranges" by (simp add: pm' r)
    next
      fix q cq svc p
      assume h: "containers m' q = Some cq \<and> (svc, p) \<in> set (ports cq)"
      with entry[of q cq] have q: "q \<noteq> pid" "containers m q = Some cq" by auto
      from a[OF q(2), of svc p] h have pin: "p \<in> allocated_ports (port_manager m)" by simp
      have "p \<notin> snd ` set (ports ci)"
      proof
        assume "p \<in> snd ` set (ports ci)"
        then obtain svc' where "(svc', p) \<in> set (ports ci)" by auto
        from u[OF Some this q(2), of svc] h q(1) show False by simp
      qed
      with pin show "p \<in> allocated_ports (port_manager m')" by (simp add: al)
    next
      fix q cq svc p
      assume h: "containers m' q = Some cq \<and> (svc, p) \<in> set (ports cq)"
      with entry[of q cq] have "containers m q = Some cq" by auto
      from a[OF this, of svc p] h
      show "\<exists>lo hi. (svc, lo, hi) \<in> set default_port_ranges \<and> lo \<le> p \<and> p \<le> hi" by simp
    next
      fix q cq svc p q' cq' svc'
      assume h: "containers m' q = Some cq \<and> (svc, p) \<in> set (ports cq) \<and>
        containers m' q' = Some cq' \<and> (svc', p) \<in> set (ports cq')"
      with entry[of q cq] entry[of q' cq']
      have "containers m q = Some cq" "containers m q' = Some cq'" by auto
      from u[OF this(1) _ this(2), of svc p svc'] h
      show "q' = q" and "svc' = svc" by simp_all
    qed
    then show ?thesis by (simp add: m'_def)
  qed
qed

lemma apply_op_ports_inv: "ports_inv m \<Longrightarrow> ports_inv (apply_op x m)"
  by (cases x) (simp_all add: create_sandbox_ports_inv delete_sandbox_ports_inv)

lemma run_ops_ports_inv: "ports_inv m \<Longrightarrow> ports_inv (run_ops ops m)"
  unfolding run_ops_def
  by (induction ops arbitrary: m) (simp_all add: apply_op_ports_inv)


section \<open>Port uniqueness and range membership\<close>

lemma default_range_cases:
  "(svc, lo, hi) \<in> set default_port_ranges \<Longrightarrow> lo \<le> p \<Longrightarrow> p \<le> hi \<Longrightarrow>
   svc = ''vnc'' \<and> 15901 \<le> p \<and> p \<le> 16000 \<or>
   svc = ''novnc'' \<and> 16080 \<le> p \<and> p \<le> 16179 \<or>
   svc = ''browser_api'' \<and> 17788 \<le> p \<and> p \<le> 17887 \<or>
   svc = ''file_server'' \<and> 18080 \<le> p \<and> p \<le> 18179"
  by (auto simp: default_port_ranges_def)

text \<open>
  Claim C3 (port uniqueness and range membership). After any sequence of creations and
  deletions, started from a fresh manager on any engine, every port that a cached
  (live) sandbox holds for a role lies in the inclusive range declared for that role,
  and no other sandbox and no other role holds the same port.
\<close>

theorem live_ports_unique_and_in_range:
  assumes run: "m = run_ops ops (LocalSandboxManager_init eng)"
    and live: "containers m pid = Some ci"
    and held: "(svc, p) \<in> set (ports ci)"
  shows "(svc = ''vnc'' \<and> 15901 \<le> p \<and> p \<le> 16000 \<or>
          svc = ''novnc'' \<and> 16080 \<le> p \<and> p \<le> 16179 \<or>
          svc = ''browser_api'' \<and> 17788 \<le> p \<and> p \<le> 17887 \<or>
          svc = ''file_server'' \<and> 18080 \<le> p \<and> p \<le> 18179)
         \<and> (\<forall>pid' ci' svc'. containers m pid' = Some ci' \<and> (svc', p) \<in> set (ports ci')
               \<longrightarrow> pid' = pid \<and> svc' = svc)"
proof -
  have inv: "ports_inv m"
    unfolding run by (rule run_ops_ports_inv) (rule ports_inv_init)
  then obtain lo hi where "(svc, lo, hi) \<in> set default_port_ranges" "lo \<le> p" "p \<le> hi"
    using live held unfolding ports_inv_def by blast
  then have rng: "svc = ''vnc'' \<and> 15901 \<le> p \<and> p \<le> 16000 \<or>
          svc = ''novnc'' \<and> 16080 \<le> p \<and> p \<le> 16179 \<or>
          svc = ''browser_api'' \<and> 17788 \<le> p \<and> p \<le> 17887 \<or>
          svc = ''file_server'' \<and> 18080 \<le> p \<and> p \<le> 18179"
    by (rule default_range_cases)
  have uq: "\<forall>pid' ci' svc'. containers m pid' = Some ci' \<and> (svc', p) \<in> set (ports ci')
               \<longrightarrow> pid' = pid \<and> svc' = svc"
    using inv live held unfolding ports_inv_def by blast
  from rng uq show ?thesis by blast
qed


theorem live_ports_unique_and_in_range_witness:
  "containers two_sandboxes ''p2'' = Some p2_entry
   \<and> (''vnc'', 15902) \<in> set (ports p2_entry)
   \<and> 15901 \<le> (15902::int) \<and> (15902::int) \<le> 16000
   \<and> containers two_sandboxes ''p1'' = Some p1_entry
   \<and> (''vnc'', 15902) \<notin> set (ports p1_entry)
   \<and> (''novnc'', 15902) \<notin> set (ports p2_entry)"
proof -
  have live: "containers two_sandboxes ''p2'' = Some p2_entry"
    by code_simp
  have held: "(''vnc'', 15902) \<in> set (ports p2_entry)"
    by (simp add: p2_entry_def)
  have other: "containers two_sandboxes ''p1'' = Some p1_entry"
    by code_simp
  have rng: "15901 \<le> (15902::int) \<and> (15902::int) \<le> 16000"
    by simp
  have uq: "\<forall>pid' ci' svc'. containers two_sandboxes pid' = Some ci' \<and> (svc', 15902) \<in> set (ports ci')
         \<longrightarrow> pid' = ''p2'' \<and> svc' = ''vnc''"
    by (rule conjunct2 [OF live_ports_unique_and_in_range [OF two_sandboxes_def live held]])
  have a: "(''vnc'', 15902) \<notin> set (ports p1_entry)"
  proof
    assume "(''vnc'', 15902) \<in> set (ports p1_entry)"
    with uq other have "''p1'' = ''p2''" by blast
    then show False by simp
  qed
  have b: "(''novnc'', 15902) \<notin> set (ports p2_entry)"
  proof
    assume "(''novnc'', 15902) \<in> set (ports p2_entry)"
    with uq live have "''novnc'' = ''vnc''" by blast
    then show False by simp
  qed
  from live held rng other a b show ?thesis by blast
qed

section \<open>Duplicate create\<close>

lemma volumes_create_containers [simp]:
  "engine_containers (volumes_create v eng) = engine_containers eng"
  by (simp add: volumes_create_def)

lemma create_body_conflict:
  assumes "name_in_use (''suna-sandbox-'' @ project_id cfg) (docker m)"
  shows "\<exists>e m'. create_body env cfg ps m = (Inl e, m') \<and>
           engine_containers (docker m') = engine_containers (docker m) \<and>
           (\<forall>port_map. port_publishing ps = Inr port_map \<and>
                 \<not> length (split_on CHR ''x'' (resolution cfg)) < 2 \<longrightarrow>
              e = APIError (''Conflict. The container name '' @ (''suna-sandbox-'' @ project_id cfg)
                              @ '' is already in use''))"
  using assms
  by (auto simp: create_body_def containers_run_def name_in_use_def Let_def split: sum.splits)

text \<open>
  Claim C4 (duplicate create), as the code has it. A project that is in the cache is
  rejected with the already-exists \<^verbatim>\<open>ValueError\<close> before anything is allocated or
  created: the state is unchanged. A project that is not in the cache but whose
  container name is taken in the engine is rejected too, and no container is created
  and the cache is unchanged; the error is then the name conflict that
  \<^verbatim>\<open>containers.run\<close> raises, unless an earlier step of the request raised, and the ports
  that were allocated for the request are released again.
\<close>

theorem create_sandbox_duplicate:
  assumes dup: "containers m (project_id cfg) \<noteq> None \<or>
      name_in_use (''suna-sandbox-'' @ project_id cfg) (docker m)"
  shows "\<exists>e m'. create_sandbox env cfg m = (Inl e, m')
     \<and> containers m' = containers m
     \<and> engine_containers (docker m') = engine_containers (docker m)
     \<and> (containers m (project_id cfg) \<noteq> None \<longrightarrow>
          e = ValueError (''Sandbox for project '' @ project_id cfg @ '' already exists'') \<and> m' = m)
     \<and> (containers m (project_id cfg) = None \<longrightarrow>
          (\<forall>ps pm1. allocate_ports (project_id cfg) (port_manager m) = (Inr ps, pm1) \<longrightarrow>
             (distinct (map fst (port_ranges (port_manager m))) \<longrightarrow> port_manager m' = port_manager m) \<and>
             (\<forall>port_map. port_publishing ps = Inr port_map \<and>
                 \<not> length (split_on CHR ''x'' (resolution cfg)) < 2 \<longrightarrow>
                e = APIError (''Conflict. The container name '' @ (''suna-sandbox-'' @ project_id cfg)
                              @ '' is already in use''))))"
proof (cases "containers m (project_id cfg) \<noteq> None")
  case True
  then show ?thesis by (auto simp: create_sandbox_def)
next
  case False
  then have fresh: "containers m (project_id cfg) = None" by simp
  with dup have eng: "name_in_use (''suna-sandbox-'' @ project_id cfg) (docker m)" by simp
  obtain r pm1 where alloc: "allocate_ports (project_id cfg) (port_manager m) = (r, pm1)"
    by (cases "allocate_ports (project_id cfg) (port_manager m)")
  show ?thesis
  proof (cases r)
    case (Inl e)
    with alloc fresh show ?thesis by (simp add: create_sandbox_def)
  next
    case (Inr ps)
    note al = alloc[unfolded Inr]
    from eng have eng': "name_in_use (''suna-sandbox-'' @ project_id cfg) (docker (m\<lparr>port_manager := pm1\<rparr>))" by simp
    from create_body_conflict[OF eng', of env ps] obtain e m2 where
      body: "create_body env cfg ps (m\<lparr>port_manager := pm1\<rparr>) = (Inl e, m2)"
      and ec: "engine_containers (docker m2) = engine_containers (docker m)"
      and err: "\<forall>port_map. port_publishing ps = Inr port_map \<and>
                 \<not> length (split_on CHR ''x'' (resolution cfg)) < 2 \<longrightarrow>
              e = APIError (''Conflict. The container name '' @ (''suna-sandbox-'' @ project_id cfg)
                              @ '' is already in use'')"
      by auto
    have res: "create_sandbox env cfg m =
        (Inl e, m2\<lparr>port_manager := release_ports ps (port_manager m2)\<rparr>)"
      using fresh al body by (simp add: create_sandbox_def)
    have c: "containers m2 = containers m"
      using create_body_Inl_containers[OF body] by simp
    have pm2: "port_manager m2 = pm1"
      using create_body_port_manager[of env cfg ps "m\<lparr>port_manager := pm1\<rparr>"] body by simp
    have rel: "distinct (map fst (port_ranges (port_manager m))) \<Longrightarrow>
        release_ports ps pm1 = port_manager m"
      by (rule release_after_allocate[OF al])
    show ?thesis
      unfolding res using fresh al c ec err pm2 rel by simp
  qed
qed

theorem create_sandbox_duplicate_witness:
  "name_in_use ''suna-sandbox-p1'' (docker foreign_manager)
   \<and> containers foreign_manager ''p1'' = None
   \<and> (\<exists>e m'. create_sandbox example_env (SandboxConfig_default ''p1'') foreign_manager = (Inl e, m')
         \<and> containers m' = containers foreign_manager
         \<and> engine_containers (docker m') = engine_containers (docker foreign_manager))"
proof -
  have eng: "name_in_use ''suna-sandbox-p1'' (docker foreign_manager)"
    by code_simp
  have fresh: "containers foreign_manager ''p1'' = None"
    by code_simp
  have pid: "project_id (SandboxConfig_default ''p1'') = ''p1''"
    by (simp add: SandboxConfig_default_def)
  from eng have dup: "containers foreign_manager (project_id (SandboxConfig_default ''p1'')) \<noteq> None \<or>
      name_in_use (''suna-sandbox-'' @ project_id (SandboxConfig_default ''p1'')) (docker foreign_manager)"
    unfolding pid by simp
  from create_sandbox_duplicate[OF dup, of example_env] eng fresh
  show ?thesis by blast
qed

text \<open>
  The claim as stated fails for a name that is taken in the engine only: the error is
  the engine's conflict, raised after the ports were allocated and after the volume
  \<open>suna-workspace-p1\<close> was created, and that volume stays.
\<close>

theorem create_sandbox_engine_duplicate_counterexample:
  "name_in_use ''suna-sandbox-p1'' (docker foreign_manager)
   \<and> fst (create_sandbox example_env (SandboxConfig_default ''p1'') foreign_manager)
        = Inl (APIError ''Conflict. The container name suna-sandbox-p1 is already in use'')
   \<and> engine_volumes (docker foreign_manager) = []
   \<and> engine_volumes (docker (snd (create_sandbox example_env (SandboxConfig_default ''p1'') foreign_manager)))
        = [''suna-workspace-p1'']"
  by code_simp


section \<open>Recovery of the port mapping\<close>

lemma get_sandbox_port_manager:
  "port_manager (snd (get_sandbox env pid m)) = port_manager m"
proof (cases "containers m pid")
  case (Some ci)
  then show ?thesis by (simp add: get_sandbox_def)
next
  case None
  show ?thesis
  proof (cases "containers_get (''suna-sandbox-'' @ pid) (docker m)")
    case (Inl e)
    with None show ?thesis by (simp add: get_sandbox_def)
  next
    case (Inr c)
    with None show ?thesis
      by (simp add: get_sandbox_def Let_def split: option.splits)
  qed
qed

lemma set_update_cases:
  "x \<in> set (AList.update k v al) \<Longrightarrow> x = (k, v) \<or> x \<in> set al"
  by (induction al) (auto split: if_splits)

lemma extract_loop_origin:
  "(svc, p) \<in> set (extract_loop tbl acc) \<Longrightarrow>
   (svc, p) \<in> set acc \<or>
   (\<exists>internal others. (internal, Some (p # others)) \<in> set tbl \<and> (internal, svc) \<in> set port_mapping)"
proof (induction tbl arbitrary: acc)
  case Nil
  then show ?case by simp
next
  case (Cons row tbl)
  obtain internal bindings where row: "row = (internal, bindings)" by (cases row)
  show ?case
  proof (cases bindings)
    case None
    with Cons.prems row have "(svc, p) \<in> set (extract_loop tbl acc)" by simp
    from Cons.IH[OF this] show ?thesis by auto
  next
    case (Some bs)
    show ?thesis
    proof (cases bs)
      case Nil
      with Cons.prems row Some have "(svc, p) \<in> set (extract_loop tbl acc)" by simp
      from Cons.IH[OF this] show ?thesis by auto
    next
      case (Cons b others)
      show ?thesis
      proof (cases "map_of port_mapping internal")
        case None
        with Cons.prems row Some Cons have "(svc, p) \<in> set (extract_loop tbl acc)" by simp
        from Cons.IH[OF this] show ?thesis by auto
      next
        case (Some service_name)
        with \<open>(svc, p) \<in> set (extract_loop (row # tbl) acc)\<close> row \<open>bindings = Some bs\<close> Cons
        have "(svc, p) \<in> set (extract_loop tbl (AList.update service_name b acc))" by simp
        from Cons.IH[OF this] show ?thesis
        proof
          assume "(svc, p) \<in> set (AList.update service_name b acc)"
          from set_update_cases[OF this] show ?thesis
          proof
            assume "(svc, p) = (service_name, b)"
            with Some row \<open>bindings = Some bs\<close> Cons map_of_SomeD[OF Some]
            show ?thesis by auto
          qed simp
        qed auto
      qed
    qed
  qed
qed

lemma get_sandbox_Inl_state:
  "containers_get (''suna-sandbox-'' @ pid) (docker m) = Inl e \<Longrightarrow> containers m pid = None \<Longrightarrow>
   snd (get_sandbox env pid m) = m"
  by (simp add: get_sandbox_def)

lemma get_sandbox_miss:
  assumes miss: "containers m pid = None"
    and hit: "containers (snd (get_sandbox env pid m)) pid = Some ci"
  shows "\<exists>c. containers_get (''suna-sandbox-'' @ pid) (docker m) = Inr c
             \<and> ports ci = extract_ports_from_container c"
proof (cases "containers_get (''suna-sandbox-'' @ pid) (docker m)")
  case (Inl e)
  from get_sandbox_Inl_state[OF Inl miss] hit miss show ?thesis by simp
next
  case (Inr c)
  show ?thesis
  proof (cases "map_of (labels c) ''suna.project_id'' = Some pid")
    case False
    with Inr miss have "snd (get_sandbox env pid m) = m" by (simp add: get_sandbox_def)
    with hit miss show ?thesis by simp
  next
    case True
    define created where "created = (case map_of (labels c) ''suna.created_at'' of
                                   None \<Rightarrow> isoformat env (Naive (now env))
                                 | Some s \<Rightarrow> s)"
    show ?thesis
    proof (cases "fromisoformat env created")
      case None
      with Inr miss True have "snd (get_sandbox env pid m) = m"
        by (simp add: get_sandbox_def created_def)
      with hit miss show ?thesis by simp
    next
      case (Some d)
      with Inr miss True have "containers (snd (get_sandbox env pid m)) pid =
          Some \<lparr>container = cont_id c, ports = extract_ports_from_container c,
                config = SandboxConfig_default pid, created_at = d,
                volume_name = ''suna-workspace-'' @ pid\<rparr>"
        by (simp add: get_sandbox_def created_def Let_def)
      with hit have "ports ci = extract_ports_from_container c" by auto
      with Inr show ?thesis by simp
    qed
  qed
qed

text \<open>
  Claim C5 (recovered ports are reserved), as the code has it. \<^verbatim>\<open>get_sandbox\<close> never
  changes the port allocator: it has no operation that marks a port in use. When it
  rebuilds the cache entry of a project from the container found by name, the entry
  holds the ports read from the container's port table, each the first host binding of
  one of the internal ports 5901, 6080, 7788 and 8080, and nothing else records them.
\<close>

theorem get_sandbox_leaves_allocator:
  "port_manager (snd (get_sandbox env pid m)) = port_manager m
   \<and> (containers m pid = None \<longrightarrow>
        (\<forall>ci. containers (snd (get_sandbox env pid m)) pid = Some ci \<longrightarrow>
           (\<exists>c. containers_get (''suna-sandbox-'' @ pid) (docker m) = Inr c
                \<and> ports ci = extract_ports_from_container c
                \<and> (\<forall>svc p. (svc, p) \<in> set (ports ci) \<longrightarrow>
                      (\<exists>internal others. (internal, Some (p # others)) \<in> set (network_ports c)
                          \<and> (internal, svc) \<in> set port_mapping)))))"
proof (intro conjI impI allI)
  show "port_manager (snd (get_sandbox env pid m)) = port_manager m"
    by (rule get_sandbox_port_manager)
next
  fix ci
  assume miss: "containers m pid = None"
    and hit: "containers (snd (get_sandbox env pid m)) pid = Some ci"
  from get_sandbox_miss[OF miss hit] obtain c where
    c: "containers_get (''suna-sandbox-'' @ pid) (docker m) = Inr c"
    and p: "ports ci = extract_ports_from_container c"
    by blast
  have "\<forall>svc p. (svc, p) \<in> set (ports ci) \<longrightarrow>
          (\<exists>internal others. (internal, Some (p # others)) \<in> set (network_ports c)
              \<and> (internal, svc) \<in> set port_mapping)"
    using extract_loop_origin[of _ _ "network_ports c" "[]"]
    by (auto simp: p extract_ports_from_container_def)
  with c p show "\<exists>c. containers_get (''suna-sandbox-'' @ pid) (docker m) = Inr c
                \<and> ports ci = extract_ports_from_container c
                \<and> (\<forall>svc p. (svc, p) \<in> set (ports ci) \<longrightarrow>
                      (\<exists>internal others. (internal, Some (p # others)) \<in> set (network_ports c)
                          \<and> (internal, svc) \<in> set port_mapping))"
    by blast
qed

theorem get_sandbox_leaves_allocator_witness:
  "containers restarted_manager ''p1'' = None
   \<and> port_manager (snd (get_sandbox example_env ''p1'' restarted_manager)) = port_manager restarted_manager
   \<and> (\<exists>ci c. containers (snd (get_sandbox example_env ''p1'' restarted_manager)) ''p1'' = Some ci
          \<and> containers_get (''suna-sandbox-'' @ ''p1'') (docker restarted_manager) = Inr c
          \<and> ports ci = extract_ports_from_container c)"
proof -
  have miss: "containers restarted_manager ''p1'' = None"
    by code_simp
  have "containers (snd (get_sandbox example_env ''p1'' restarted_manager)) ''p1'' \<noteq> None"
    by code_simp
  then obtain ci where
    hit: "containers (snd (get_sandbox example_env ''p1'' restarted_manager)) ''p1'' = Some ci"
    by blast
  from get_sandbox_leaves_allocator[of example_env "''p1''" restarted_manager] miss hit
  show ?thesis by blast
qed

text \<open>
  The claim as stated fails: after the manager of a running sandbox is restarted,
  \<^verbatim>\<open>get_sandbox\<close> recovers the four host ports, none of them is in the allocator's set,
  and the next allocation hands out the very same ports.
\<close>

theorem get_sandbox_reserve_counterexample:
  "containers restarted_manager ''p1'' = None
   \<and> map_option ports (containers (snd (get_sandbox example_env ''p1'' restarted_manager)) ''p1'')
       = Some [(''vnc'', 15901), (''novnc'', 16080), (''browser_api'', 17788), (''file_server'', 18080)]
   \<and> 15901 \<notin> allocated_ports (port_manager (snd (get_sandbox example_env ''p1'' restarted_manager)))
   \<and> fst (allocate_ports ''p2'' (port_manager (snd (get_sandbox example_env ''p1'' restarted_manager))))
       = Inr [(''vnc'', 15901), (''novnc'', 16080), (''browser_api'', 17788), (''file_server'', 18080)]"
  by code_simp


section \<open>Path cleaning: splitting, joining, collapsing\<close>

lemma split_on_nonempty [simp]: "split_on sep s \<noteq> []"
  by (induction s) (auto split: list.splits)

lemma split_on_Cons:
  "split_on sep (c # cs) =
     (if c = sep then [] # split_on sep cs
      else (c # hd (split_on sep cs)) # tl (split_on sep cs))"
  by (cases "split_on sep cs") simp_all

declare split_on.simps(2) [simp del]

lemma split_on_append_sep:
  "split_on sep (a @ sep # b) = split_on sep a @ split_on sep b"
  by (induction a) (simp_all add: split_on_Cons)

lemma split_on_no_sep: "sep \<notin> set w \<Longrightarrow> split_on sep w = [w]"
  by (induction w) (auto simp: split_on_Cons)

lemma split_on_parts_no_sep: "w \<in> set (split_on sep s) \<Longrightarrow> sep \<notin> set w"
proof (induction s arbitrary: w)
  case Nil
  then show ?case by simp
next
  case (Cons c s)
  have hd_in: "hd (split_on sep s) \<in> set (split_on sep s)" by simp
  have tl_in: "set (tl (split_on sep s)) \<subseteq> set (split_on sep s)"
    by (cases "split_on sep s") auto
  show ?case
  proof (cases "c = sep")
    case True
    with Cons show ?thesis by (auto simp: split_on_Cons)
  next
    case False
    with Cons.prems have "w = c # hd (split_on sep s) \<or> w \<in> set (tl (split_on sep s))"
      by (simp add: split_on_Cons)
    with hd_in tl_in Cons.IH False show ?thesis by auto
  qed
qed

lemma split_on_join_slash:
  "ws \<noteq> [] \<Longrightarrow> \<forall>w \<in> set ws. CHR ''/'' \<notin> set w \<Longrightarrow> split_on CHR ''/'' (join_slash ws) = ws"
proof (induction ws rule: join_slash.induct)
  case 1
  then show ?case by simp
next
  case (2 w)
  then show ?case by (simp add: split_on_no_sep)
next
  case (3 w v ws)
  then have "split_on CHR ''/'' (join_slash (v # ws)) = v # ws" by simp
  moreover have "split_on CHR ''/'' w = [w]" using 3 by (simp add: split_on_no_sep)
  ultimately show ?case
    using split_on_append_sep[of "CHR ''/''" w "join_slash (v # ws)"] by simp
qed

lemma filter_hd_tl:
  "xs \<noteq> [] \<Longrightarrow>
   filter P xs = (if P (hd xs) then hd xs # filter P (tl xs) else filter P (tl xs))"
  by (cases xs) auto

lemma collapse_slashes_split:
  "hd (split_on CHR ''/'' (collapse_slashes s)) = hd (split_on CHR ''/'' s) \<and>
   filter (\<lambda>w. w \<noteq> []) (tl (split_on CHR ''/'' (collapse_slashes s))) =
   filter (\<lambda>w. w \<noteq> []) (tl (split_on CHR ''/'' s))"
proof (induction s rule: collapse_slashes.induct)
  case 1
  show ?case by simp
next
  case (2 c)
  show ?case by simp
next
  case (3 c d cs)
  let ?X = "split_on CHR ''/'' (collapse_slashes (d # cs))"
  let ?Y = "split_on CHR ''/'' (d # cs)"
  have X: "?X = hd ?X # tl ?X" and Y: "?Y = hd ?Y # tl ?Y" by simp_all
  have IH: "\<not> (c = CHR ''/'' \<and> d \<noteq> CHR ''/'' \<and> False) \<Longrightarrow> hd ?X = hd ?Y \<and>
      filter (\<lambda>w. w \<noteq> []) (tl ?X) = filter (\<lambda>w. w \<noteq> []) (tl ?Y)"
    using 3 by (cases "c = CHR ''/'' \<and> d = CHR ''/''") simp_all
  then have hdXY: "hd ?X = hd ?Y"
    and tlXY: "filter (\<lambda>w. w \<noteq> []) (tl ?X) = filter (\<lambda>w. w \<noteq> []) (tl ?Y)" by simp_all
  have fXY: "filter (\<lambda>w. w \<noteq> []) ?X = filter (\<lambda>w. w \<noteq> []) ?Y"
    by (simp add: filter_hd_tl[of ?X] filter_hd_tl[of ?Y] hdXY tlXY)
  show ?case
  proof (cases "c = CHR ''/''")
    case True
    then have whole: "split_on CHR ''/'' (c # d # cs) = [] # ?Y"
      using split_on_Cons[of "CHR ''/''" c "d # cs"] by simp
    show ?thesis
    proof (cases "d = CHR ''/''")
      case d: True
      then have hdY: "hd ?Y = []" using split_on_Cons[of "CHR ''/''" d cs] by simp
      have fY: "filter (\<lambda>w. w \<noteq> []) ?Y = filter (\<lambda>w. w \<noteq> []) (tl ?Y)"
        using hdY by (simp add: filter_hd_tl[of ?Y])
      have col: "collapse_slashes (c # d # cs) = collapse_slashes (d # cs)"
        using True d by simp
      show ?thesis unfolding col whole using hdXY hdY tlXY fY by simp
    next
      case d: False
      have col: "collapse_slashes (c # d # cs) = c # collapse_slashes (d # cs)"
        using d by simp
      have sp: "split_on CHR ''/'' (c # collapse_slashes (d # cs)) = [] # ?X"
        using True split_on_Cons[of "CHR ''/''" c "collapse_slashes (d # cs)"] by simp
      show ?thesis unfolding col whole sp using fXY by simp
    qed
  next
    case False
    have col: "collapse_slashes (c # d # cs) = c # collapse_slashes (d # cs)"
      using False by simp
    have sp: "split_on CHR ''/'' (c # collapse_slashes (d # cs)) = (c # hd ?X) # tl ?X"
      using False split_on_Cons[of "CHR ''/''" c "collapse_slashes (d # cs)"] by simp
    have whole: "split_on CHR ''/'' (c # d # cs) = (c # hd ?Y) # tl ?Y"
      using False split_on_Cons[of "CHR ''/''" c "d # cs"] by simp
    show ?thesis unfolding col whole sp using hdXY tlXY by simp
  qed
qed

lemma collapse_slashes_member:
  assumes "w \<noteq> []"
  shows "w \<in> set (split_on CHR ''/'' (collapse_slashes s)) \<longleftrightarrow> w \<in> set (split_on CHR ''/'' s)"
proof -
  let ?X = "split_on CHR ''/'' (collapse_slashes s)"
  let ?Y = "split_on CHR ''/'' s"
  have X: "?X = hd ?X # tl ?X" and Y: "?Y = hd ?Y # tl ?Y" by simp_all
  have "filter (\<lambda>w. w \<noteq> []) ?X = filter (\<lambda>w. w \<noteq> []) ?Y"
    using collapse_slashes_split[of s] by (simp add: filter_hd_tl[of ?X] filter_hd_tl[of ?Y])
  then have "set (filter (\<lambda>w. w \<noteq> []) ?X) = set (filter (\<lambda>w. w \<noteq> []) ?Y)" by simp
  with assms show ?thesis by auto
qed


lemma norm_comps_form:
  assumes "\<exists>k rest. acc = replicate k ''..'' @ rest \<and> ''..'' \<notin> set rest \<and> (0 < ini \<longrightarrow> k = 0)"
  shows "\<exists>k rest. norm_comps ini cs acc = replicate k ''..'' @ rest \<and> ''..'' \<notin> set rest
           \<and> (0 < ini \<longrightarrow> k = 0)"
  using assms
proof (induction cs arbitrary: acc)
  case Nil
  then show ?case by simp
next
  case (Cons part cs)
  from Cons.prems obtain k rest where acc: "acc = replicate k ''..'' @ rest"
    and rest: "''..'' \<notin> set rest" and ini: "0 < ini \<longrightarrow> k = 0" by blast
  show ?case
  proof (cases "part = [] \<or> part = ''.''")
    case True
    then have "norm_comps ini (part # cs) acc = norm_comps ini cs acc" by auto
    with Cons.IH[OF Cons.prems] show ?thesis by simp
  next
    case skip: False
    show ?thesis
    proof (cases "part \<noteq> ''..''")
      case True
      with skip have step: "norm_comps ini (part # cs) acc = norm_comps ini cs (acc @ [part])" by simp
      have "acc @ [part] = replicate k ''..'' @ (rest @ [part]) \<and> ''..'' \<notin> set (rest @ [part])
          \<and> (0 < ini \<longrightarrow> k = 0)"
        using acc rest ini True by auto
      then have "\<exists>k rest. acc @ [part] = replicate k ''..'' @ rest \<and> ''..'' \<notin> set rest
          \<and> (0 < ini \<longrightarrow> k = 0)" by blast
      from Cons.IH[OF this] step show ?thesis by simp
    next
      case False
      then have part: "part = ''..''" by simp
      show ?thesis
      proof (cases "(ini = 0 \<and> acc = []) \<or> (acc \<noteq> [] \<and> last acc = ''..'')")
        case True
        with part have step: "norm_comps ini (part # cs) acc = norm_comps ini cs (acc @ [''..''])"
          by auto
        have r: "rest = []"
        proof (rule ccontr)
          assume "rest \<noteq> []"
          then have "last acc = last rest" "last rest \<in> set rest" "acc \<noteq> []"
            using acc by simp_all
          with True rest show False by auto
        qed
        have i0: "ini = 0"
        proof (cases "acc = []")
          case True
          with \<open>(ini = 0 \<and> acc = []) \<or> (acc \<noteq> [] \<and> last acc = ''..'')\<close> show ?thesis by simp
        next
          case False
          with acc r have "k \<noteq> 0" by auto
          with ini show ?thesis by auto
        qed
        have "acc @ [''..''] = replicate (Suc k) ''..'' @ [] \<and> ''..'' \<notin> set []
          \<and> (0 < ini \<longrightarrow> Suc k = 0)"
          using acc r i0 by (simp add: replicate_append_same)
        then have "\<exists>k rest. acc @ [''..''] = replicate k ''..'' @ rest \<and> ''..'' \<notin> set rest
          \<and> (0 < ini \<longrightarrow> k = 0)" by blast
        from Cons.IH[OF this] step show ?thesis by simp
      next
        case nokeep: False
        show ?thesis
        proof (cases "acc \<noteq> []")
          case True
          with nokeep part have step: "norm_comps ini (part # cs) acc = norm_comps ini cs (butlast acc)"
            by auto
          from True nokeep have last: "last acc \<noteq> ''..''" by simp
          have r: "rest \<noteq> []"
          proof
            assume "rest = []"
            with acc True have "acc = replicate k ''..''" "k \<noteq> 0" by auto
            then have "last acc = ''..''" by (cases k) simp_all
            with last show False by simp
          qed
          then have "butlast acc = replicate k ''..'' @ butlast rest"
            using acc by (simp add: butlast_append)
          moreover have "''..'' \<notin> set (butlast rest)"
            using rest by (auto dest: in_set_butlastD)
          ultimately have "\<exists>k rest. butlast acc = replicate k ''..'' @ rest \<and> ''..'' \<notin> set rest
            \<and> (0 < ini \<longrightarrow> k = 0)" using ini by blast
          from Cons.IH[OF this] step show ?thesis by simp
        next
          case False
          with nokeep part have step: "norm_comps ini (part # cs) acc = norm_comps ini cs acc"
            by auto
          with Cons.IH[OF Cons.prems] show ?thesis by simp
        qed
      qed
    qed
  qed
qed

lemma norm_comps_parts:
  "w \<in> set (norm_comps ini cs acc) \<Longrightarrow> w \<in> set acc \<or> w \<in> set cs"
proof (induction cs arbitrary: acc)
  case Nil
  then show ?case by simp
next
  case (Cons part cs)
  have "norm_comps ini (part # cs) acc = norm_comps ini cs acc \<or>
        norm_comps ini (part # cs) acc = norm_comps ini cs (acc @ [part]) \<or>
        norm_comps ini (part # cs) acc = norm_comps ini cs (butlast acc)"
    by simp
  then consider
      (same) "w \<in> set (norm_comps ini cs acc)"
    | (push) "w \<in> set (norm_comps ini cs (acc @ [part]))"
    | (pop) "w \<in> set (norm_comps ini cs (butlast acc))"
    using Cons.prems by metis
  then show ?case
  proof cases
    case same
    from Cons.IH[OF this] show ?thesis by auto
  next
    case push
    from Cons.IH[OF this] show ?thesis by auto
  next
    case pop
    from Cons.IH[OF this] show ?thesis by (auto dest: in_set_butlastD)
  qed
qed

lemma dotdot_front:
  assumes "R = replicate k ''..'' @ rest" "''..'' \<notin> set rest"
  shows "''..'' \<in> set R \<longleftrightarrow> R \<noteq> [] \<and> hd R = ''..''"
proof (cases k)
  case 0
  with assms show ?thesis by (cases rest) auto
next
  case (Suc n)
  with assms show ?thesis by simp
qed


lemma normpath_tokens:
  "(dotdot_token (normpath q) \<longleftrightarrow> hd (split_on CHR ''/'' (normpath q)) = ''..'')
   \<and> (startswith q ''/'' \<longrightarrow> \<not> dotdot_token (normpath q))"
proof (cases "q = []")
  case True
  then show ?thesis
    by (simp add: normpath_def dotdot_token_def startswith_def split_on_Cons)
next
  case False
  define ini :: nat where "ini = (if startswith q ''/''
                then (if startswith q ''//'' \<and> \<not> startswith q ''///'' then 2 else 1)
                else 0)"
  define R where "R = norm_comps ini (split_on CHR ''/'' q) []"
  have np: "normpath q = (if replicate ini CHR ''/'' @ join_slash R = [] then ''.''
                          else replicate ini CHR ''/'' @ join_slash R)"
    using False by (simp add: normpath_def Let_def ini_def R_def)
  have "\<exists>k rest. [] = replicate k ''..'' @ rest \<and> ''..'' \<notin> set rest \<and> (0 < ini \<longrightarrow> k = 0)"
    by simp
  from norm_comps_form[OF this, of "split_on CHR ''/'' q"] obtain k rest where
    form: "R = replicate k ''..'' @ rest" "''..'' \<notin> set rest" "0 < ini \<longrightarrow> k = 0"
    unfolding R_def by blast
  have front: "''..'' \<in> set R \<longleftrightarrow> R \<noteq> [] \<and> hd R = ''..''"
    by (rule dotdot_front[OF form(1,2)])
  have noslash: "\<forall>w \<in> set R. CHR ''/'' \<notin> set w"
    using norm_comps_parts[of _ ini "split_on CHR ''/'' q" "[]"] split_on_parts_no_sep
    unfolding R_def by fastforce
  have sj: "R \<noteq> [] \<Longrightarrow> split_on CHR ''/'' (join_slash R) = R"
    using noslash by (simp add: split_on_join_slash)
  have ini_cases: "ini = 0 \<or> ini = 1 \<or> ini = 2" by (simp add: ini_def)
  have abs: "startswith q ''/'' \<Longrightarrow> 0 < ini" by (simp add: ini_def)
  show ?thesis
  proof (cases "ini = 0")
    case True
    then have rel: "\<not> startswith q ''/''" using abs by auto
    show ?thesis
    proof (cases "join_slash R = []")
      case True
      with \<open>ini = 0\<close> np have "normpath q = ''.''" by simp
      with rel show ?thesis by (simp add: dotdot_token_def split_on_Cons)
    next
      case False
      then have "R \<noteq> []" by auto
      with \<open>ini = 0\<close> np False sj have "split_on CHR ''/'' (normpath q) = R" by simp
      with front \<open>R \<noteq> []\<close> rel show ?thesis by (simp add: dotdot_token_def)
    qed
  next
    case False
    with form(3) have k0: "k = 0" by simp
    with form have noR: "''..'' \<notin> set R" by simp
    from False ini_cases have "ini = 1 \<or> ini = 2" by simp
    then have sp: "split_on CHR ''/'' (normpath q) = [] # split_on CHR ''/'' (join_slash R)
        \<or> split_on CHR ''/'' (normpath q) = [] # [] # split_on CHR ''/'' (join_slash R)"
      using np by (auto simp: split_on_Cons numeral_2_eq_2)
    have inner: "''..'' \<notin> set (split_on CHR ''/'' (join_slash R))"
    proof (cases "R = []")
      case True
      then show ?thesis by simp
    next
      case False
      with sj noR show ?thesis by simp
    qed
    from sp inner show ?thesis by (auto simp: dotdot_token_def)
  qed
qed

lemma split_workspace: "split_on CHR ''/'' ''/workspace'' = [[], ''workspace'']"
  by (simp add: split_on_Cons)

lemma reparent_tokens: "dotdot_token (reparent x) \<longleftrightarrow> dotdot_token x"
proof (cases "startswith x ''/workspace''")
  case True
  then show ?thesis by (simp add: reparent_def)
next
  case False
  show ?thesis
  proof (cases "startswith x ''/''")
    case True
    then obtain x' where x: "x = CHR ''/'' # x'"
      by (cases x) (auto simp: startswith_def)
    from False True have "reparent x = ''/workspace'' @ CHR ''/'' # x'"
      by (simp add: reparent_def x)
    then have "split_on CHR ''/'' (reparent x) = [[], ''workspace''] @ split_on CHR ''/'' x'"
      using split_on_append_sep[of "CHR ''/''" "''/workspace''" x'] split_workspace by simp
    moreover have "split_on CHR ''/'' x = [] # split_on CHR ''/'' x'"
      by (simp add: x split_on_Cons)
    ultimately show ?thesis by (simp add: dotdot_token_def)
  next
    case rel: False
    with False have "reparent x = ''/workspace'' @ CHR ''/'' # x"
      by (simp add: reparent_def)
    then have "split_on CHR ''/'' (reparent x) = [[], ''workspace''] @ split_on CHR ''/'' x"
      using split_on_append_sep[of "CHR ''/''" "''/workspace''" x] split_workspace by simp
    then show ?thesis by (simp add: dotdot_token_def)
  qed
qed

lemma collapse_tokens: "dotdot_token (collapse_slashes s) \<longleftrightarrow> dotdot_token s"
  unfolding dotdot_token_def by (rule collapse_slashes_member) simp

lemma startswith_reparent: "startswith (reparent x) ''/workspace''"
  by (simp add: reparent_def startswith_def)

lemma startswith_collapse:
  assumes "startswith s ''/workspace''"
  shows "startswith (collapse_slashes s) ''/workspace''"
proof -
  from assms have "take (length ''/workspace'') s = ''/workspace''"
    unfolding startswith_def .
  then have "s = ''/workspace'' @ drop (length ''/workspace'') s"
    by (metis append_take_drop_id)
  then obtain r where s: "s = ''/workspace'' @ r" ..
  show ?thesis
    unfolding s by (cases r) (simp_all add: startswith_def)
qed

lemma hd_split_Cons:
  "hd (split_on sep s) = d # w \<Longrightarrow> \<exists>t. s = d # t"
  by (cases s) (auto simp: split_on_Cons split: if_splits)

lemma token_has_dotdot: "''..'' \<in> set (split_on sep s) \<Longrightarrow> has_dotdot s"
proof (induction s)
  case Nil
  then show ?case by simp
next
  case (Cons c s)
  have tl_in: "set (tl (split_on sep s)) \<subseteq> set (split_on sep s)"
    by (cases "split_on sep s") auto
  have up: "has_dotdot s \<Longrightarrow> has_dotdot (c # s)" by (cases s) auto
  show ?case
  proof (cases "c = sep")
    case True
    with Cons.prems have "''..'' \<in> set (split_on sep s)" by (simp add: split_on_Cons)
    with Cons.IH up show ?thesis by simp
  next
    case False
    with Cons.prems have "''..'' = c # hd (split_on sep s) \<or> ''..'' \<in> set (tl (split_on sep s))"
      by (simp add: split_on_Cons)
    then show ?thesis
    proof
      assume "''..'' = c # hd (split_on sep s)"
      then have c: "c = CHR ''.''" and h: "hd (split_on sep s) = CHR ''.'' # []" by auto
      from hd_split_Cons[OF h] obtain t where "s = CHR ''.'' # t" ..
      with c show ?thesis by simp
    next
      assume "''..'' \<in> set (tl (split_on sep s))"
      with tl_in Cons.IH up show ?thesis by auto
    qed
  qed
qed


section \<open>Path safety\<close>

text \<open>
  What \<^verbatim>\<open>clean_path\<close> does establish, for the tool base and for the HTTP layer: the
  result begins with \<^verbatim>\<open>/workspace\<close> for every input. It has a \<^verbatim>\<open>..\<close> component exactly
  when the input is not empty and its normalised form begins with one, which is what
  normalisation leaves of a relative path that climbs above its start; so it has none
  for an absolute path, and none where \<^verbatim>\<open>validate_path\<close> is called on the result and
  accepts it.
\<close>

lemma clean_path_prefix_and_dotdot:
  "startswith (clean_path p) ''/workspace''
   \<and> startswith (api_clean_path unquote p) ''/workspace''
   \<and> (dotdot_token (clean_path p) \<longleftrightarrow>
        p \<noteq> [] \<and> hd (split_on CHR ''/'' (normpath (strip_dangerous p))) = ''..'')
   \<and> (dotdot_token (api_clean_path unquote p) \<longleftrightarrow>
        p \<noteq> [] \<and> hd (split_on CHR ''/'' (normpath (unquote p))) = ''..'')
   \<and> (startswith (strip_dangerous p) ''/'' \<longrightarrow> \<not> dotdot_token (clean_path p))
   \<and> (validate_path (clean_path p) \<longrightarrow> \<not> dotdot_token (clean_path p))"
proof -
  have ws: "\<not> dotdot_token ''/workspace''"
    by (simp add: dotdot_token_def split_workspace)
  have pre1: "startswith (clean_path p) ''/workspace''"
  proof (cases "p = []")
    case True
    then show ?thesis by (simp add: clean_path_def startswith_def)
  next
    case False
    then show ?thesis
      by (simp add: clean_path_def startswith_collapse startswith_reparent)
  qed
  have pre2: "startswith (api_clean_path unquote p) ''/workspace''"
  proof (cases "p = []")
    case True
    then show ?thesis by (simp add: api_clean_path_def startswith_def)
  next
    case False
    then show ?thesis by (simp add: api_clean_path_def startswith_reparent)
  qed
  have tok1: "dotdot_token (clean_path p) \<longleftrightarrow>
        p \<noteq> [] \<and> hd (split_on CHR ''/'' (normpath (strip_dangerous p))) = ''..''"
  proof (cases "p = []")
    case True
    with ws show ?thesis by (simp add: clean_path_def)
  next
    case False
    then have "dotdot_token (clean_path p) \<longleftrightarrow> dotdot_token (normpath (strip_dangerous p))"
      by (simp add: clean_path_def collapse_tokens reparent_tokens)
    with normpath_tokens[of "strip_dangerous p"] False show ?thesis by simp
  qed
  have tok2: "dotdot_token (api_clean_path unquote p) \<longleftrightarrow>
        p \<noteq> [] \<and> hd (split_on CHR ''/'' (normpath (unquote p))) = ''..''"
  proof (cases "p = []")
    case True
    with ws show ?thesis by (simp add: api_clean_path_def)
  next
    case False
    then have "dotdot_token (api_clean_path unquote p) \<longleftrightarrow> dotdot_token (normpath (unquote p))"
      by (simp add: api_clean_path_def reparent_tokens)
    with normpath_tokens[of "unquote p"] False show ?thesis by simp
  qed
  have abs: "startswith (strip_dangerous p) ''/'' \<longrightarrow> \<not> dotdot_token (clean_path p)"
  proof
    assume a: "startswith (strip_dangerous p) ''/''"
    then have "p \<noteq> []" by (auto simp: startswith_def strip_dangerous_def)
    then have "dotdot_token (clean_path p) \<longleftrightarrow> dotdot_token (normpath (strip_dangerous p))"
      by (simp add: clean_path_def collapse_tokens reparent_tokens)
    with normpath_tokens[of "strip_dangerous p"] a show "\<not> dotdot_token (clean_path p)" by blast
  qed
  have val: "validate_path (clean_path p) \<longrightarrow> \<not> dotdot_token (clean_path p)"
  proof
    assume "validate_path (clean_path p)"
    then have "\<not> has_dotdot (clean_path p)"
      by (auto simp: validate_path_def split: if_splits)
    then show "\<not> dotdot_token (clean_path p)"
      unfolding dotdot_token_def using token_has_dotdot by blast
  qed
  from pre1 pre2 tok1 tok2 abs val show ?thesis by blast
qed

text \<open>
  Claim C2 (path safety: for every input the cleaned path begins with
  \<^verbatim>\<open>/workspace\<close> and has no \<^verbatim>\<open>..\<close> token). For the relative path
  \<^verbatim>\<open>../etc/passwd\<close> (which has no \<^verbatim>\<open>%\<close> and is its own URL decoding) both versions
  of \<^verbatim>\<open>clean_path\<close> return \<^verbatim>\<open>/workspace/../etc/passwd\<close>: the \<^verbatim>\<open>..\<close> survives the normalisation and the result is
  only prefixed. \<^verbatim>\<open>execute_command\<close> of the tool base hands such a result to exec as
  the working directory with no further check: for \<^verbatim>\<open>../etc\<close> the engine is asked to
  run the command in \<^verbatim>\<open>/workspace/../etc\<close>.
\<close>

theorem clean_path_keeps_leading_dotdot:
  "clean_path ''../etc/passwd'' = ''/workspace/../etc/passwd''
   \<and> dotdot_token (clean_path ''../etc/passwd'')
   \<and> api_clean_path id ''../etc/passwd'' = ''/workspace/../etc/passwd''
   \<and> dotdot_token (api_clean_path id ''../etc/passwd'')
   \<and> snd (tool_execute_command example_env (Completed 0 []) None (Inr created_adapter)
             ''p1'' ''ls'' ''../etc'')
        = [(0, ''ls'', ''/workspace/../etc'')]"
  by code_simp

text \<open>
  The prefix is a test on characters: a sibling directory whose name begins with
  \<^verbatim>\<open>workspace\<close> is left as it is by \<^verbatim>\<open>clean_path\<close> and accepted by \<^verbatim>\<open>validate_path\<close>.
\<close>

lemma clean_path_sibling_directory:
  "clean_path ''/workspace2/x'' = ''/workspace2/x''
   \<and> validate_path (clean_path ''/workspace2/x'')"
  by code_simp

section \<open>get_workspace\<close>

text \<open>
  Claim C8 (\<^verbatim>\<open>get_workspace\<close> and errors), as the code has it. \<^verbatim>\<open>get_workspace\<close> never
  raises. It returns \<^verbatim>\<open>None\<close> exactly when the look-up fails, with whatever error:
  silently for a \<^verbatim>\<open>ValueError\<close> (the manager's not-found error), after logging for
  every other exception.
\<close>

theorem get_workspace_none_on_every_error:
  "\<exists>r a1 lg. get_workspace env pid a = (Inr r, a1, lg)
     \<and> (r = None \<longleftrightarrow> (\<exists>e. fst (get_sandbox env pid (sandbox_manager a)) = Inl e))
     \<and> (\<forall>e. fst (get_sandbox env pid (sandbox_manager a)) = Inl e \<longrightarrow>
            (lg = [] \<longleftrightarrow> (\<exists>msg. e = ValueError msg)))"
proof -
  obtain r m1 where g: "get_sandbox env pid (sandbox_manager a) = (r, m1)"
    by (cases "get_sandbox env pid (sandbox_manager a)")
  show ?thesis
  proof (cases r)
    case (Inr info)
    with g show ?thesis by (simp add: get_workspace_def Let_def)
  next
    case (Inl e)
    with g show ?thesis by (cases e) (simp_all add: get_workspace_def)
  qed
qed

theorem get_workspace_none_on_every_error_witness:
  "fst (get_sandbox example_env ''p1'' (sandbox_manager stopped_adapter)) = Inl (KeyError ''vnc'')
   \<and> (\<exists>r a1 lg. get_workspace example_env ''p1'' stopped_adapter = (Inr r, a1, lg)
         \<and> r = None \<and> lg \<noteq> [])"
proof -
  have g: "fst (get_sandbox example_env ''p1'' (sandbox_manager stopped_adapter)) = Inl (KeyError ''vnc'')"
    by code_simp
  from get_workspace_none_on_every_error[of example_env "''p1''" stopped_adapter] g
  show ?thesis by auto
qed

text \<open>
  The claim as stated fails: a look-up that fails with a \<^verbatim>\<open>KeyError\<close>, which is not the
  not-found error, is turned into \<^verbatim>\<open>None\<close> as well and does not reach the caller.
\<close>

theorem get_workspace_swallows_key_error_counterexample:
  "fst (get_sandbox example_env ''p1'' (sandbox_manager stopped_adapter)) = Inl (KeyError ''vnc'')
   \<and> fst (get_workspace example_env ''p1'' stopped_adapter) = Inr None"
  by code_simp

section \<open>execute_command\<close>

text \<open>
  The branch for a container that is not running: once \<^verbatim>\<open>get_sandbox\<close> has resolved the
  project, the structured failure is returned and exec is not called; and exec is
  called only for a running container.
\<close>

lemma execute_command_not_running:
  assumes "get_sandbox env pid (sandbox_manager a) = (Inr info, m1)"
    and "containers m1 pid = Some ci"
    and "reload (container ci) (docker m1) = Inr c"
    and "status c \<noteq> ''running''"
  shows "execute_command env reply pid command workdir a =
     (\<lparr>exit_code = - 1, stdout = [],
       stderr = ''Container is not running (status: '' @ status c @ '')'',
       success = False\<rparr>, [], a\<lparr>sandbox_manager := m1\<rparr>)"
  using assms by (simp add: execute_command_def)

lemma execute_command_calls:
  assumes "fst (snd (execute_command env reply pid command workdir a)) \<noteq> []"
  shows "\<exists>info m1 ci c. get_sandbox env pid (sandbox_manager a) = (Inr info, m1)
           \<and> containers m1 pid = Some ci \<and> reload (container ci) (docker m1) = Inr c
           \<and> status c = ''running''"
proof -
  obtain r m1 where g: "get_sandbox env pid (sandbox_manager a) = (r, m1)"
    by (cases "get_sandbox env pid (sandbox_manager a)")
  show ?thesis
  proof (cases r)
    case (Inl e)
    with g assms show ?thesis by (simp add: execute_command_def)
  next
    case (Inr info)
    show ?thesis
    proof (cases "containers m1 pid")
      case None
      with g Inr assms show ?thesis by (simp add: execute_command_def)
    next
      case (Some ci)
      show ?thesis
      proof (cases "reload (container ci) (docker m1)")
        case (Inl e)
        with g Inr Some assms show ?thesis by (simp add: execute_command_def)
      next
        case c: (Inr c)
        with g Inr Some assms show ?thesis
          by (cases "status c = ''running''") (simp_all add: execute_command_def)
      qed
    qed
  qed
qed

text \<open>
  Claim C6 (a container that is not running gets the structured failure with
  \<^verbatim>\<open>Container is not running (status: ...)\<close>, and exec is not invoked). For the stopped
  sandbox that a restarted manager finds in the engine, \<^verbatim>\<open>get_sandbox\<close> raises
  \<^verbatim>\<open>KeyError('vnc')\<close> while it composes the URLs from the empty port table, and
  \<^verbatim>\<open>execute_command\<close> answers from its exception branch: the error text is the
  quoted key, not the status message.
\<close>

theorem execute_command_on_recovered_stopped_sandbox:
  "containers_get ''suna-sandbox-p1'' (docker (sandbox_manager stopped_adapter)) = Inr stopped_p1
   \<and> status stopped_p1 = ''exited''
   \<and> fst (execute_command example_env (Completed 0 []) ''p1'' ''ls'' ''/workspace'' stopped_adapter)
        = \<lparr>exit_code = - 1, stdout = [], stderr = [CHR 0x27] @ ''vnc'' @ [CHR 0x27],
           success = False\<rparr>
   \<and> stderr (fst (execute_command example_env (Completed 0 []) ''p1'' ''ls'' ''/workspace'' stopped_adapter))
        \<noteq> ''Container is not running (status: exited)''"
  by code_simp

text \<open>For a sandbox that the manager created itself and that then stopped, the branch works.\<close>

lemma execute_command_on_cached_stopped_sandbox:
  "fst (execute_command example_env (Completed 0 []) ''p1'' ''ls'' ''/workspace''
          created_then_stopped_adapter)
     = \<lparr>exit_code = - 1, stdout = [], stderr = ''Container is not running (status: exited)'',
        success = False\<rparr>
   \<and> fst (snd (execute_command example_env (Completed 0 []) ''p1'' ''ls'' ''/workspace''
          created_then_stopped_adapter)) = []"
  by code_simp

text \<open>
  Claim C10 (success means exit code 0). Every result of \<^verbatim>\<open>execute_command\<close>, of the
  adapter, of \<^verbatim>\<open>LocalSandbox\<close> and of the tool base, from the normal exec, from the
  branch of the container that is not running and from every exception branch, has
  \<open>success\<close> true exactly when \<open>exit_code\<close> is 0.
\<close>

theorem success_iff_exit_code_zero:
  "(success (fst (execute_command env reply pid command workdir a)) \<longleftrightarrow>
      exit_code (fst (execute_command env reply pid command workdir a)) = 0)
   \<and> (success (fst (sandbox_execute_command env reply acquired pid command workdir)) \<longleftrightarrow>
      exit_code (fst (sandbox_execute_command env reply acquired pid command workdir)) = 0)
   \<and> (success (fst (tool_execute_command env reply tool_acquired acquired pid command workdir)) \<longleftrightarrow>
      exit_code (fst (tool_execute_command env reply tool_acquired acquired pid command workdir)) = 0)"
proof -
  have adapter: "\<And>pid command workdir a.
      success (fst (execute_command env reply pid command workdir a)) \<longleftrightarrow>
      exit_code (fst (execute_command env reply pid command workdir a)) = 0"
    by (auto simp: execute_command_def failure_result_def Let_def
             split: prod.splits sum.splits option.splits exec_reply.splits)
  have sandbox: "\<And>acquired pid command workdir.
      success (fst (sandbox_execute_command env reply acquired pid command workdir)) \<longleftrightarrow>
      exit_code (fst (sandbox_execute_command env reply acquired pid command workdir)) = 0"
  proof -
    fix acquired pid command workdir
    show "success (fst (sandbox_execute_command env reply acquired pid command workdir)) \<longleftrightarrow>
      exit_code (fst (sandbox_execute_command env reply acquired pid command workdir)) = 0"
    proof (cases acquired)
      case (Inl e)
      then show ?thesis by (simp add: sandbox_execute_command_def failure_result_def)
    next
      case (Inr a')
      obtain r calls a1 where x: "execute_command env reply pid command workdir a' = (r, calls, a1)"
        by (cases "execute_command env reply pid command workdir a'") auto
      with adapter[of pid command workdir a'] Inr show ?thesis
        by (simp add: sandbox_execute_command_def)
    qed
  qed
  have tool: "success (fst (tool_execute_command env reply tool_acquired acquired pid command workdir)) \<longleftrightarrow>
      exit_code (fst (tool_execute_command env reply tool_acquired acquired pid command workdir)) = 0"
    using sandbox[of acquired pid command "clean_path workdir"]
    by (cases tool_acquired) (simp_all add: tool_execute_command_def failure_result_def)
  from adapter sandbox tool show ?thesis by blast
qed


theorem success_iff_exit_code_zero_witness:
  "exit_code (fst (execute_command example_env (Completed 3 ''no'') ''p1'' ''false'' ''/workspace''
       created_adapter)) = 3
   \<and> \<not> success (fst (execute_command example_env (Completed 3 ''no'') ''p1'' ''false'' ''/workspace''
       created_adapter))
   \<and> success (fst (tool_execute_command example_env (Completed 0 ''ok'') None (Inr created_adapter)
       ''p1'' ''true'' ''work''))"
proof -
  have e: "exit_code (fst (execute_command example_env (Completed 3 ''no'') ''p1'' ''false''
       ''/workspace'' created_adapter)) = 3"
    by code_simp
  have t: "exit_code (fst (tool_execute_command example_env (Completed 0 ''ok'') None
       (Inr created_adapter) ''p1'' ''true'' ''work'')) = 0"
    by code_simp
  from success_iff_exit_code_zero[where env = example_env and reply = "Completed 3 ''no''"
        and pid = "''p1''" and command = "''false''" and workdir = "''/workspace''"
        and a = created_adapter]
    success_iff_exit_code_zero[where env = example_env and reply = "Completed 0 ''ok''"
        and acquired = "Inr created_adapter" and pid = "''p1''" and command = "''true''"
        and workdir = "''work''" and tool_acquired = None] e t
  show ?thesis by simp
qed

section \<open>Expiration sweep\<close>

text \<open>
  Claim C7 (one sweep deletes every sandbox container whose \<^verbatim>\<open>suna.auto_stop_at\<close> is
  in the past). After a restart of the manager the engine lists the container of
  \<open>p1\<close>, its label parses and lies in the past, and the sweep collects the project;
  but \<^verbatim>\<open>delete_sandbox\<close> looks the project up in the empty cache only, raises the
  not-found error, the sweep logs it, and the container is still there.
\<close>

theorem cleanup_leaves_uncached_expired_sandbox:
  "containers_list ''suna.auto_stop_at'' (docker restarted_manager) = [running_p1]
   \<and> map_of (labels running_p1) ''suna.auto_stop_at'' = Some ''2024-01-02T00:00:00''
   \<and> fromisoformat example_env ''2024-01-02T00:00:00'' = Some (Naive 1704153600000000)
   \<and> naive_gt (now example_env) (Naive 1704153600000000) = Inr True
   \<and> fst (cleanup_expired_sandboxes example_env restarted_manager) = Inr ()
   \<and> engine_containers (docker (fst (snd (cleanup_expired_sandboxes example_env restarted_manager))))
        = [running_p1]
   \<and> snd (snd (cleanup_expired_sandboxes example_env restarted_manager))
        = [Error ''Failed to cleanup sandbox p1: Sandbox for project p1 not found'']"
  by code_simp

text \<open>
  The rest of the claim on concrete sweeps: an expired sandbox that is in the cache is
  deleted with its volume and its ports, one that has not expired is kept, and a label
  that does not parse is logged and skipped without failing the sweep.
\<close>

lemma cleanup_deletes_cached_expired_sandbox:
  "engine_containers (docker created_manager) \<noteq> []
   \<and> fst (cleanup_expired_sandboxes later_env created_manager) = Inr ()
   \<and> engine_containers (docker (fst (snd (cleanup_expired_sandboxes later_env created_manager)))) = []
   \<and> engine_volumes (docker (fst (snd (cleanup_expired_sandboxes later_env created_manager)))) = []
   \<and> containers (fst (snd (cleanup_expired_sandboxes later_env created_manager))) ''p1'' = None
   \<and> allocated_ports (port_manager (fst (snd (cleanup_expired_sandboxes later_env created_manager)))) = {}
   \<and> snd (snd (cleanup_expired_sandboxes later_env created_manager))
        = [Info ''Cleaned up expired sandbox for project p1'']"
  by code_simp

lemma cleanup_keeps_unexpired_sandbox:
  "fst (cleanup_expired_sandboxes example_env created_manager) = Inr ()
   \<and> engine_containers (docker (fst (snd (cleanup_expired_sandboxes example_env created_manager))))
        = engine_containers (docker created_manager)
   \<and> containers (fst (snd (cleanup_expired_sandboxes example_env created_manager))) ''p1'' \<noteq> None
   \<and> snd (snd (cleanup_expired_sandboxes example_env created_manager)) = []"
  by code_simp

lemma cleanup_skips_malformed_label:
  "fst (cleanup_expired_sandboxes example_env mislabelled_manager) = Inr ()
   \<and> engine_containers (docker (fst (snd (cleanup_expired_sandboxes example_env mislabelled_manager))))
        = engine_containers (docker mislabelled_manager)
   \<and> snd (snd (cleanup_expired_sandboxes example_env mislabelled_manager))
        = [Warning ''Invalid auto_stop_at format: tomorrow'']"
  by code_simp


section \<open>The readiness probe: traces\<close>

lemma no_reprobe_snoc:
  "no_reprobe (evs @ [e]) \<longleftrightarrow>
     no_reprobe evs \<and>
     (\<forall>s p r. e = Probe s p r \<longrightarrow> (\<forall>port out. Probe s port (Completed 0 out) \<notin> set evs))"
proof
  assume L: "no_reprobe (evs @ [e])"
  have a: "no_reprobe evs"
    unfolding no_reprobe_def
  proof (intro allI impI)
    fix i j s port out port' r
    assume h: "i < j \<and> j < length evs \<and> evs ! i = Probe s port (Completed 0 out)"
    then have "i < j \<and> j < length (evs @ [e]) \<and> (evs @ [e]) ! i = Probe s port (Completed 0 out)"
      by (simp add: nth_append)
    with L have "(evs @ [e]) ! j \<noteq> Probe s port' r"
      unfolding no_reprobe_def by blast
    with h show "evs ! j \<noteq> Probe s port' r" by (simp add: nth_append)
  qed
  have b: "\<forall>s p r. e = Probe s p r \<longrightarrow> (\<forall>port out. Probe s port (Completed 0 out) \<notin> set evs)"
  proof (intro allI impI notI)
    fix s p r port out
    assume e: "e = Probe s p r" and m: "Probe s port (Completed 0 out) \<in> set evs"
    from m obtain i where i: "i < length evs" "evs ! i = Probe s port (Completed 0 out)"
      by (auto simp: in_set_conv_nth)
    then have "i < length evs \<and> length evs < length (evs @ [e])
        \<and> (evs @ [e]) ! i = Probe s port (Completed 0 out)"
      by (simp add: nth_append)
    with L have "(evs @ [e]) ! (length evs) \<noteq> Probe s p r"
      unfolding no_reprobe_def by blast
    with e show False by simp
  qed
  from a b show "no_reprobe evs \<and>
     (\<forall>s p r. e = Probe s p r \<longrightarrow> (\<forall>port out. Probe s port (Completed 0 out) \<notin> set evs))" ..
next
  assume R: "no_reprobe evs \<and>
     (\<forall>s p r. e = Probe s p r \<longrightarrow> (\<forall>port out. Probe s port (Completed 0 out) \<notin> set evs))"
  show "no_reprobe (evs @ [e])"
    unfolding no_reprobe_def
  proof (intro allI impI)
    fix i j s port out port' r
    assume h: "i < j \<and> j < length (evs @ [e]) \<and> (evs @ [e]) ! i = Probe s port (Completed 0 out)"
    then have i: "i < length evs" "evs ! i = Probe s port (Completed 0 out)"
      by (auto simp: nth_append)
    show "(evs @ [e]) ! j \<noteq> Probe s port' r"
    proof (cases "j < length evs")
      case True
      with h i R have "evs ! j \<noteq> Probe s port' r"
        unfolding no_reprobe_def by blast
      with True show ?thesis by (simp add: nth_append)
    next
      case False
      with h have j: "j = length evs" by simp
      from i have "Probe s port (Completed 0 out) \<in> set evs" by (auto simp: in_set_conv_nth)
      with R have "e \<noteq> Probe s port' r" by blast
      with j show ?thesis by simp
    qed
  qed
qed

lemma no_reprobe_snoc_other:
  "no_reprobe evs \<Longrightarrow> \<forall>s p r. e \<noteq> Probe s p r \<Longrightarrow> no_reprobe (evs @ [e])"
  by (simp add: no_reprobe_snoc)

lemma no_reprobe_without_probes:
  "\<forall>s p r. Probe s p r \<notin> set evs \<Longrightarrow> no_reprobe evs"
  unfolding no_reprobe_def by (metis nth_mem)

lemma ready_as_probed_snoc_other:
  "ready_as_probed ready evs \<Longrightarrow> \<forall>s p out. e \<noteq> Probe s p (Completed 0 out) \<Longrightarrow>
   ready_as_probed ready (evs @ [e])"
  unfolding ready_as_probed_def by fastforce

lemma ready_as_probed_snoc_ready:
  "ready_as_probed ready evs \<Longrightarrow>
   ready_as_probed (ready @ [service]) (evs @ [Probe service port (Completed 0 out)])"
  unfolding ready_as_probed_def by auto


lemma check_services_inv:
  assumes "no_reprobe evs" and "ready_as_probed ready evs"
    and "check_services probe svcs ready ar el k evs = (ready1, ar1, el1, k1, evs1)"
  shows "no_reprobe evs1 \<and> ready_as_probed ready1 evs1"
  using assms
proof (induction svcs arbitrary: ready ar el k evs)
  case Nil
  then show ?case by simp
next
  case (Cons sp rest)
  obtain service port where sp: "sp = (service, port)" by (cases sp)
  show ?case
  proof (cases "service \<in> set ready")
    case True
    with Cons.prems(3) sp have
      "check_services probe rest ready ar el k evs = (ready1, ar1, el1, k1, evs1)" by simp
    from Cons.IH[OF Cons.prems(1,2) this] show ?thesis .
  next
    case False
    with Cons.prems(2) have unseen: "\<forall>p out. Probe service p (Completed 0 out) \<notin> set evs"
      unfolding ready_as_probed_def by blast
    have np: "\<And>r. no_reprobe (evs @ [Probe service port r])"
      using Cons.prems(1) unseen by (simp add: no_reprobe_snoc)
    obtain reply d where pk: "probe k = (reply, d)" by (cases "probe k")
    show ?thesis
    proof (cases reply)
      case (Raised e)
      let ?evs = "evs @ [Probe service port (Raised e),
                       Logged (Debug (service @ '' service check failed: '' @ str_error e))]"
      from Cons.prems(3) sp False pk Raised have rec:
        "check_services probe rest ready False (el + d) (Suc k) ?evs = (ready1, ar1, el1, k1, evs1)"
        by simp
      have e2: "?evs = (evs @ [Probe service port (Raised e)]) @
          [Logged (Debug (service @ '' service check failed: '' @ str_error e))]" by simp
      have n: "no_reprobe ?evs"
        unfolding e2 by (rule no_reprobe_snoc_other[OF np]) simp
      have r: "ready_as_probed ready ?evs"
        unfolding e2
        by (intro ready_as_probed_snoc_other Cons.prems(2)) simp_all
      from Cons.IH[OF n r rec] show ?thesis .
    next
      case (Completed code out)
      show ?thesis
      proof (cases "code = 0")
        case True
        let ?evs = "evs @ [Probe service port (Completed code out),
                      Logged (Info (service @ '' service is ready on port '' @ str_int port))]"
        from Cons.prems(3) sp False pk Completed True have rec:
          "check_services probe rest (ready @ [service]) ar (el + d) (Suc k) ?evs
             = (ready1, ar1, el1, k1, evs1)"
          by simp
        have e2: "?evs = (evs @ [Probe service port (Completed 0 out)]) @
            [Logged (Info (service @ '' service is ready on port '' @ str_int port))]"
          using True by simp
        have n: "no_reprobe ?evs"
          unfolding e2 by (rule no_reprobe_snoc_other[OF np]) simp
        have r: "ready_as_probed (ready @ [service]) ?evs"
          unfolding e2
          by (intro ready_as_probed_snoc_other ready_as_probed_snoc_ready Cons.prems(2)) simp
        from Cons.IH[OF n r rec] show ?thesis .
      next
        case nz: False
        let ?evs = "evs @ [Probe service port (Completed code out)]"
        from Cons.prems(3) sp False pk Completed nz have rec:
          "check_services probe rest ready False (el + d) (Suc k) ?evs
             = (ready1, ar1, el1, k1, evs1)"
          by simp
        have n: "no_reprobe ?evs" by (rule np)
        have r: "ready_as_probed ready ?evs"
          using nz by (intro ready_as_probed_snoc_other Cons.prems(2)) simp
        from Cons.IH[OF n r rec] show ?thesis .
      qed
    qed
  qed
qed

lemma service_phase_inv:
  assumes "no_reprobe evs" and "ready_as_probed ready evs"
    and "service_phase probe timeout start_time ready t k evs = (t2, k2, evs3)"
  shows "no_reprobe evs3 \<and> evs3 \<noteq> [] \<and>
         (last evs3 = Logged (Info ''All services are ready'') \<or>
          (\<exists>ready'. last evs3 = Logged (timeout_warning ready') \<and> ready_as_probed ready' evs3))"
  using assms
proof (induction probe timeout start_time ready t k evs rule: service_phase.induct)
  case (1 probe timeout start_time ready t k evs)
  show ?case
  proof (cases "t - start_time < timeout * 1000")
    case False
    with "1.prems"(3) have evs3: "evs3 = evs @ [Logged (timeout_warning ready)]"
      by (simp add: service_phase.simps)
    have "no_reprobe evs3"
      unfolding evs3 by (rule no_reprobe_snoc_other[OF "1.prems"(1)]) simp
    moreover have "ready_as_probed ready evs3"
      unfolding evs3 by (rule ready_as_probed_snoc_other[OF "1.prems"(2)]) simp
    ultimately show ?thesis using evs3 by auto
  next
    case True
    obtain ready1 all_ready elapsed k1 evs1 where cs:
      "check_services probe services_to_check ready True 0 k evs
         = (ready1, all_ready, elapsed, k1, evs1)"
      by (cases "check_services probe services_to_check ready True 0 k evs") auto
    from check_services_inv[OF "1.prems"(1,2) cs]
    have n1: "no_reprobe evs1" and r1: "ready_as_probed ready1 evs1" by simp_all
    show ?thesis
    proof (cases all_ready)
      case ar: True
      with "1.prems"(3) True cs have evs3:
        "evs3 = evs1 @ [Logged (Info ''All services are ready'')]"
        by (simp add: service_phase.simps)
      have "no_reprobe evs3"
        unfolding evs3 by (rule no_reprobe_snoc_other[OF n1]) simp
      then show ?thesis using evs3 by simp
    next
      case nar: False
      with "1.prems"(3) True cs have rec:
        "service_phase probe timeout start_time ready1 (t + int elapsed + 3000) k1 (evs1 @ [Sleep 3])
           = (t2, k2, evs3)"
        by (simp add: service_phase.simps)
      have n2: "no_reprobe (evs1 @ [Sleep 3])"
        by (rule no_reprobe_snoc_other[OF n1]) simp
      have r2: "ready_as_probed ready1 (evs1 @ [Sleep 3])"
        by (rule ready_as_probed_snoc_other[OF r1]) simp
      from "1.IH"[OF True cs[symmetric] refl refl refl nar n2 r2 rec] show ?thesis .
    qed
  qed
qed

lemma supervisord_phase_no_probes:
  assumes "\<forall>s p r. Probe s p r \<notin> set evs"
    and "supervisord_phase probe start_time t k evs = (ok, t1, k1, evs1)"
  shows "\<forall>s p r. Probe s p r \<notin> set evs1"
  using assms
proof (induction probe start_time t k evs rule: supervisord_phase.induct)
  case (1 probe start_time t k evs)
  show ?case
  proof (cases "t - start_time < 30000")
    case False
    with "1.prems" show ?thesis by (simp add: supervisord_phase.simps)
  next
    case True
    obtain reply d where pk: "probe k = (reply, d)" by (cases "probe k")
    show ?thesis
    proof (cases reply)
      case (Raised e)
      let ?evs = "evs @ [Pgrep (Raised e),
                       Logged (Debug (''Supervisord check failed: '' @ str_error e)),
                       Sleep 2]"
      from "1.prems"(2) True pk Raised have rec:
        "supervisord_phase probe start_time (t + int d + 2000) (Suc k) ?evs = (ok, t1, k1, evs1)"
        by (simp add: supervisord_phase.simps[of probe start_time t k evs])
      have "\<forall>s p r. Probe s p r \<notin> set ?evs" using "1.prems"(1) by simp
      from "1.IH"(2)[OF True pk[symmetric] Raised this rec] show ?thesis .
    next
      case (Completed code out)
      show ?thesis
      proof (cases "code = 0")
        case z: True
        with "1.prems"(2) True pk Completed have
          "evs1 = evs @ [Pgrep (Completed code out), Logged (Info ''Supervisord is running'')]"
          by (simp add: supervisord_phase.simps[of probe start_time t k evs])
        with "1.prems"(1) show ?thesis by simp
      next
        case nz: False
        let ?evs = "evs @ [Pgrep (Completed code out), Sleep 2]"
        from "1.prems"(2) True pk Completed nz have rec:
          "supervisord_phase probe start_time (t + int d + 2000) (Suc k) ?evs = (ok, t1, k1, evs1)"
          by (simp add: supervisord_phase.simps[of probe start_time t k evs])
        have "\<forall>s p r. Probe s p r \<notin> set ?evs" using "1.prems"(1) by simp
        from "1.IH"(1)[OF True pk[symmetric] Completed nz this rec] show ?thesis .
      qed
    qed
  qed
qed


section \<open>The readiness probe returns soft-ready\<close>

text \<open>
  Claim C9 (the readiness probe always returns normally). For every behaviour of the
  container, every time-out and every start time, \<^verbatim>\<open>_wait_for_services\<close> comes to its
  end: its trace ends with the settling sleep of five seconds and the closing log
  line. What stands before them ends either with the line that all services are ready
  or, on the time-out, with the warning that lists the services seen ready and the
  missing ones, after which the function goes on as in the other case. In the whole
  trace no service is probed again after a probe of it answered with exit code 0.
\<close>

theorem wait_for_services_soft_ready:
  "\<exists>pre. wait_for_services probe cid timeout start_time
            = pre @ [Sleep 5, Logged (Info ''Service startup process completed'')]
     \<and> pre \<noteq> []
     \<and> (last pre = Logged (Info ''All services are ready'') \<or>
         (\<exists>ready. last pre = Logged (timeout_warning ready) \<and> ready_as_probed ready pre))
     \<and> no_reprobe (wait_for_services probe cid timeout start_time)"
proof -
  let ?first = "[Logged (Info (''Waiting for services to start in container '' @ take 12 cid @ ''...''))]"
  obtain ok t1 k1 evs1 where sv:
    "supervisord_phase probe start_time start_time 0 ?first = (ok, t1, k1, evs1)"
    by (cases "supervisord_phase probe start_time start_time 0 ?first") auto
  define evs2 where "evs2 = (if \<not> ok
                       then evs1 @ [Logged (Warning ''Supervisord may not be running properly'')]
                       else evs1)"
  obtain t2 k2 evs3 where sp:
    "service_phase probe timeout start_time [] t1 k1 evs2 = (t2, k2, evs3)"
    by (cases "service_phase probe timeout start_time [] t1 k1 evs2") auto
  have w: "wait_for_services probe cid timeout start_time
      = evs3 @ [Sleep 5, Logged (Info ''Service startup process completed'')]"
    using sv sp by (simp add: wait_for_services_def evs2_def)
  have "\<forall>s p r. Probe s p r \<notin> set ?first" by simp
  from supervisord_phase_no_probes[OF this sv]
  have np1: "\<forall>s p r. Probe s p r \<notin> set evs1" .
  then have np2: "\<forall>s p r. Probe s p r \<notin> set evs2" by (simp add: evs2_def)
  have n2: "no_reprobe evs2" by (rule no_reprobe_without_probes[OF np2])
  have r2: "ready_as_probed [] evs2"
    using np2 by (simp add: ready_as_probed_def)
  from service_phase_inv[OF n2 r2 sp]
  have n3: "no_reprobe evs3" and ne: "evs3 \<noteq> []"
    and l3: "last evs3 = Logged (Info ''All services are ready'') \<or>
          (\<exists>ready'. last evs3 = Logged (timeout_warning ready') \<and> ready_as_probed ready' evs3)"
    by simp_all
  have "no_reprobe (evs3 @ [Sleep 5])"
    by (rule no_reprobe_snoc_other[OF n3]) simp
  then have "no_reprobe ((evs3 @ [Sleep 5]) @ [Logged (Info ''Service startup process completed'')])"
    by (rule no_reprobe_snoc_other) simp
  then have n: "no_reprobe (wait_for_services probe cid timeout start_time)"
    by (simp add: w)
  from w ne l3 n show ?thesis by blast
qed


theorem wait_for_services_soft_ready_witness:
  "wait_for_services novnc_down ''0123456789abcdef'' 5 0
     = novnc_trace_prefix @ [Sleep 5, Logged (Info ''Service startup process completed'')]
   \<and> missing_services [''vnc'', ''file_server'', ''browser_api''] = [''novnc'']
   \<and> ready_as_probed [''vnc'', ''file_server'', ''browser_api''] novnc_trace_prefix
   \<and> no_reprobe (wait_for_services novnc_down ''0123456789abcdef'' 5 0)"
proof -
  have run: "wait_for_services novnc_down ''0123456789abcdef'' 5 0
     = novnc_trace_prefix @ [Sleep 5, Logged (Info ''Service startup process completed'')]"
    by code_simp
  have miss: "missing_services [''vnc'', ''file_server'', ''browser_api''] = [''novnc'']"
    by code_simp
  have lastp: "last novnc_trace_prefix = Logged (timeout_warning [''vnc'', ''file_server'', ''browser_api''])"
    by (simp add: novnc_trace_prefix_def)
  have notall: "last novnc_trace_prefix \<noteq> Logged (Info ''All services are ready'')"
    by (simp add: lastp timeout_warning_def)
  from wait_for_services_soft_ready[of novnc_down "''0123456789abcdef''" 5 0]
  obtain pre where pre:
    "wait_for_services novnc_down ''0123456789abcdef'' 5 0
            = pre @ [Sleep 5, Logged (Info ''Service startup process completed'')]"
    "last pre = Logged (Info ''All services are ready'') \<or>
         (\<exists>ready. last pre = Logged (timeout_warning ready) \<and> ready_as_probed ready pre)"
    "no_reprobe (wait_for_services novnc_down ''0123456789abcdef'' 5 0)"
    by blast
  from pre(1) run have eq: "pre = novnc_trace_prefix" by simp
  with pre(2) notall obtain ready where
    ready: "last novnc_trace_prefix = Logged (timeout_warning ready)"
    "ready_as_probed ready novnc_trace_prefix" by blast
  have "set ready = {''vnc'', ''file_server'', ''browser_api''}"
  proof -
    have "\<And>s. s \<in> set ready \<longleftrightarrow> s \<in> {''vnc'', ''file_server'', ''browser_api''}"
      using ready(2) unfolding ready_as_probed_def novnc_trace_prefix_def by auto
    then show ?thesis by blast
  qed
  then have "ready_as_probed [''vnc'', ''file_server'', ''browser_api''] novnc_trace_prefix"
    using ready(2) unfolding ready_as_probed_def by simp
  with run miss pre(3) show ?thesis by blast
qed


end
